theory Spec2Isabelle
  imports Main "HOL-Library.Word" "HOL-Library.Monad_Syntax"
begin

unbundle bit_operations_syntax

section \<open>Data model of rudp.go\<close>

text \<open>
  The source is a Go port of a C reliable-UDP engine and is not accepted by the Go
  compiler as it stands (\<^verbatim>\<open>intbuf[0]\<close>, \<^verbatim>\<open>lenn\<close>, \<^verbatim>\<open>(*Message)(m)\<close> on a
  list element, \<^verbatim>\<open>if u.Corrupt\<close> on an int). The embedding follows the text of each
  function statement by statement and reads the places that are not Go as follows:
  \<^item> \<^verbatim>\<open>intbuf[0]\<close>, \<^verbatim>\<open>buffer[1]\<close> are \<^verbatim>\<open>int(buf[0])\<close>, \<^verbatim>\<open>int(buf[1])\<close>; \<^verbatim>\<open>lenn\<close> and
    \<^verbatim>\<open>len\<close> in FillHeader are the parameter \<^verbatim>\<open>length\<close>;
  \<^item> an int stored into a byte is truncated to its low 8 bits;
  \<^item> \<^verbatim>\<open>if u.Corrupt\<close> tests for a non-zero flag, as in C;
  \<^item> \<^verbatim>\<open>(*Message)(m)\<close> on a list element yields the message the element carries;
  \<^item> \<^verbatim>\<open>return size\<close> in FillHeader returns both named results;
  \<^item> \<^verbatim>\<open>make(Message)\<close> in NewMessage is a new message with zero fields.

  The source's variables \<^verbatim>\<open>id\<close>, \<^verbatim>\<open>size\<close> and \<^verbatim>\<open>length\<close> are written \<open>idn\<close>,
  \<open>sz\<close> and \<open>len\<close>, since HOL has constants of those names.
\<close>

subsection \<open>Integers\<close>

text \<open>
  Go's \<^verbatim>\<open>int\<close> is taken to have 64 bits, as on the 64-bit platforms. It is modelled
  by \<^typ>\<open>int\<close> with the wrap-around written out: \<open>wrap\<close> takes the exact result of
  an addition or subtraction to the value the machine keeps. It is applied wherever
  operands a session or a caller can hold may overflow. It is not applied to the byte
  arithmetic of the tags, nor to the sizes inside ExtractPackage and FillHeader, which
  stay between -1 and the size they start from, nor to the loop counters, which stay
  below their bound.
\<close>

definition wrap :: "int \<Rightarrow> int" where
  "wrap x = (x + 2 ^ 63) mod 2 ^ 64 - 2 ^ 63"

type_synonym byte = "8 word"

definition DefaultPackageSize :: int where
  "DefaultPackageSize = 512"

datatype error = ErrCorrupt

definition TypeIgnore :: int where "TypeIgnore = 0"
definition TypeCorrupt :: int where "TypeCorrupt = 1"
definition TypeRequest :: int where "TypeRequest = 2"
definition TypeMissing :: int where "TypeMissing = 3"
definition TypeNormal :: int where "TypeNormal = 4"

subsection \<open>Structs\<close>

text \<open>
  The lists hold \<^verbatim>\<open>*Message\<close> pointers, and RemoveMessage compares pointers. A
  pointer is modelled by the message it points to together with the address of that
  message, the field \<open>Addr\<close>, which is not a field of the source's struct: two
  pointers are equal when their addresses are. The fields of a message are assigned
  only between its allocation and its entry into a queue, so the copies held by the
  lists do not go stale (see \<open>set_front\<close> below).
\<close>

record Message =
  Addr :: nat
  Size :: int
  Cap :: int
  ID :: int
  Tick :: int
  Buf :: "byte list"

text \<open>RUDPPackage has fields Size and Buf, PackageIndex has Cap, N and A; they are
  prefixed here because record fields share one name space.\<close>

record RUDPPackage =
  PkgSize :: int
  PkgBuf :: "byte list"

record PackageIndex =
  IdxCap :: int
  IdxN :: int
  IdxA :: "int list"

text \<open>
  What a list element holds (\<^verbatim>\<open>Element.Value\<close>). The source stores three kinds of
  value: a \<^verbatim>\<open>*Message\<close> (QueuePush, NewMessage), the session pointer itself
  (\<^verbatim>\<open>u.RecvQueue.InsertAfter(u, e)\<close> in InsertMessage), and a list element carrying a
  message (\<^verbatim>\<open>u.SendHistory.PushBack(m)\<close> in SendMessage, where \<open>m\<close> is the
  element of the send queue).
\<close>

datatype qval = MsgVal Message | ElemVal Message | RudpVal

text \<open>
  A \<^verbatim>\<open>*list.List\<close> is a HOL list in Front-to-Back order, so \<^verbatim>\<open>PushFront\<close> is \<open>#\<close>
  and \<^verbatim>\<open>PushBack\<close> appends. RUDPNew allocates SendQueue, RecvQueue, SendHistory and
  SendPackage and leaves FreeList nil; no statement of the source assigns the first
  three, which are therefore plain lists. FreeList and SendPackage (assigned in
  RUDPUpdate) are optional lists, \<open>None\<close> for the nil pointer, on which every method
  of \<^verbatim>\<open>*list.List\<close> panics.
\<close>

record RUDP =
  SendQueue :: "qval list"
  RecvQueue :: "qval list"
  SendHistory :: "qval list"
  SendPackage :: "RUDPPackage list option"
  FreeList :: "qval list option"
  SendAgain :: PackageIndex
  Corrupt :: int
  CurrentTick :: int
  LastSendTick :: int
  LastExpireTick :: int
  SendId :: int
  RecvIdMin :: int
  RecvIdMax :: int
  SendDelay :: int
  Expired :: int

subsection \<open>Panics\<close>

text \<open>
  A panic (nil list, index or slice out of range) ends the call. The functions that
  assign to the session return the session as it is when they return or panic,
  paired with their result, \<open>None\<close> for the panic. The functions that only compute,
  or assign to the local TmpBuffer alone, return an option.
\<close>

subsection \<open>Go primitives\<close>

text \<open>The type assertion \<^verbatim>\<open>e.Value.(*Message)\<close>: \<open>None\<close> is \<^verbatim>\<open>ok == false\<close>.\<close>

fun as_message :: "qval \<Rightarrow> Message option" where
  "as_message (MsgVal m) = Some m"
| "as_message (ElemVal m) = None"
| "as_message RudpVal = None"

text \<open>\<^verbatim>\<open>ele, _ := (*Message)(m)\<close> followed by a field read: the message the element
  carries; on the session pointer there is no message and the field read panics.\<close>

fun elem_message :: "qval \<Rightarrow> Message option" where
  "elem_message (MsgVal m) = Some m"
| "elem_message (ElemVal m) = Some m"
| "elem_message RudpVal = None"

text \<open>\<^verbatim>\<open>buf[i]\<close>, \<^verbatim>\<open>buf[i] = b\<close> and \<^verbatim>\<open>buf[n:]\<close>, \<^verbatim>\<open>buf[lo:hi]\<close> with their range checks
  (a slice is taken to have no spare capacity).\<close>

definition index_at :: "'a list \<Rightarrow> int \<Rightarrow> 'a option" where
  "index_at buf i = (if 0 \<le> i \<and> i < int (length buf) then Some (buf ! nat i) else None)"

definition store_at :: "'a list \<Rightarrow> int \<Rightarrow> 'a \<Rightarrow> 'a list option" where
  "store_at buf i b = (if 0 \<le> i \<and> i < int (length buf) then Some (buf[nat i := b]) else None)"

definition slice_from :: "'a list \<Rightarrow> int \<Rightarrow> 'a list option" where
  "slice_from buf n = (if 0 \<le> n \<and> n \<le> int (length buf) then Some (drop (nat n) buf) else None)"

definition slice_to :: "'a list \<Rightarrow> int \<Rightarrow> 'a list option" where
  "slice_to buf n = (if 0 \<le> n \<and> n \<le> int (length buf) then Some (take (nat n) buf) else None)"

text \<open>\<^verbatim>\<open>copy(dst, src)\<close> overwrites the first \<open>min (len dst) (len src)\<close> bytes of dst.\<close>

definition copy_bytes :: "'a list \<Rightarrow> 'a list \<Rightarrow> 'a list" where
  "copy_bytes dst src =
     take (min (length dst) (length src)) src @ drop (min (length dst) (length src)) dst"

text \<open>The conversion of an int to a byte keeps the low 8 bits.\<close>

definition to_byte :: "int \<Rightarrow> byte" where
  "to_byte x = word_of_int x"

text \<open>
  The address of a new object differs from the address of every object the session
  points to: one more than the largest address in its lists.
\<close>

fun qval_addrs :: "qval \<Rightarrow> nat list" where
  "qval_addrs (MsgVal m) = [Addr m]"
| "qval_addrs (ElemVal m) = [Addr m]"
| "qval_addrs RudpVal = []"

definition new_addr :: "RUDP \<Rightarrow> nat" where
  "new_addr u =
     Suc (fold max
            (concat (map qval_addrs
               (SendQueue u @ RecvQueue u @ SendHistory u @
                (case FreeList u of None \<Rightarrow> [] | Some fl \<Rightarrow> fl)))) 0)"

section \<open>Message store\<close>

text \<open>
  NewMessage (lines 96-106). \<^verbatim>\<open>ele.Buf\<close> is nil when \<^verbatim>\<open>copy(ele.Buf, buf)\<close> runs, so
  nothing is copied. \<^verbatim>\<open>u.FreeList.PushFront(ele)\<close> panics on the nil FreeList that
  RUDPNew leaves; on an allocated one the new message becomes its Front and is
  returned. The callers assign fields of the returned message afterwards; the Front
  of FreeList is the same object and nothing else points to it yet, so they write
  the assigned message back with \<open>set_front\<close>.
\<close>

definition NewMessage :: "RUDP \<Rightarrow> byte list \<Rightarrow> int \<Rightarrow> RUDP \<times> Message option" where
  "NewMessage u buf sz =
     (let ele = \<lparr>Addr = new_addr u, Size = sz, Cap = DefaultPackageSize, ID = 0, Tick = 0,
                 Buf = copy_bytes [] buf\<rparr>
      in case FreeList u of
           None \<Rightarrow> (u, None)
         | Some fl \<Rightarrow> (u\<lparr>FreeList := Some (MsgVal ele # fl)\<rparr>, Some ele))"

definition set_front :: "qval list option \<Rightarrow> Message \<Rightarrow> qval list option" where
  "set_front q m = (case q of Some (e # rest) \<Rightarrow> Some (MsgVal m # rest) | _ \<Rightarrow> q)"

text \<open>
  RemoveMessage (lines 108-120) walks FreeList from the Front and removes the element
  whose pointer is \<open>m\<close>; \<^verbatim>\<open>u.FreeList.Front()\<close> panics on a nil FreeList.
  \<^verbatim>\<open>List.Remove\<close> clears the element's links, so \<^verbatim>\<open>e.Next()\<close> of a removed element
  is nil and the loop ends after the first removal.
\<close>

fun RemoveMessage_loop :: "qval list \<Rightarrow> Message \<Rightarrow> qval list" where
  "RemoveMessage_loop [] m = []"
| "RemoveMessage_loop (e # es) m =
     (case as_message e of
        Some msg \<Rightarrow> if Addr msg = Addr m then es else e # RemoveMessage_loop es m
      | None \<Rightarrow> e # RemoveMessage_loop es m)"

definition RemoveMessage :: "RUDP \<Rightarrow> Message \<Rightarrow> RUDP \<times> unit option" where
  "RemoveMessage u m =
     (case FreeList u of
        None \<Rightarrow> (u, None)
      | Some fl \<Rightarrow> (u\<lparr>FreeList := Some (RemoveMessage_loop fl m)\<rparr>, Some ()))"

text \<open>QueuePush (lines 122-126): \<^verbatim>\<open>q.PushFront(m)\<close>, the new message becomes the Front.\<close>

definition QueuePush :: "qval list \<Rightarrow> Message \<Rightarrow> qval list" where
  "QueuePush q m = MsgVal m # q"

text \<open>
  QueuePop (lines 128-139): the first element from the Front that is a message with
  the given ID is removed and returned; \<open>None\<close> is the nil result. The second
  component is the queue afterwards.
\<close>

fun QueuePop :: "qval list \<Rightarrow> int \<Rightarrow> Message option \<times> qval list" where
  "QueuePop [] idn = (None, [])"
| "QueuePop (e # es) idn =
     (case as_message e of
        Some msg \<Rightarrow>
          if ID msg = idn then (Some msg, es)
          else (case QueuePop es idn of (r, es') \<Rightarrow> (r, e # es'))
      | None \<Rightarrow> (case QueuePop es idn of (r, es') \<Rightarrow> (r, e # es')))"

text \<open>RUDPSend (lines 141-147).\<close>

definition RUDPSend :: "RUDP \<Rightarrow> byte list \<Rightarrow> int \<Rightarrow> RUDP \<times> unit option" where
  "RUDPSend u buf sz =
     (case NewMessage u buf sz of
        (u1, None) \<Rightarrow> (u1, None)
      | (u1, Some m) \<Rightarrow>
          let u2 = u1\<lparr>SendId := wrap (SendId u1 + 1)\<rparr>;
              m' = m\<lparr>ID := SendId u2, Tick := CurrentTick u2\<rparr>
          in (u2\<lparr>FreeList := set_front (FreeList u2) m',
                  SendQueue := QueuePush (SendQueue u2) m'\<rparr>, Some ()))"

text \<open>
  RUDPRecv (lines 149-163). The named result \<open>res\<close> is nil and is never allocated, so
  \<^verbatim>\<open>copy(res, m.Buf)\<close> copies nothing: the bytes returned are \<open>copy_bytes [] (Buf m)\<close>.
  The result is \<open>res\<close> and \<open>err\<close> (\<open>None\<close> for nil). RecvIdMin is incremented before
  RemoveMessage is called.
\<close>

definition RUDPRecv :: "RUDP \<Rightarrow> RUDP \<times> (byte list \<times> error option) option" where
  "RUDPRecv u =
     (if Corrupt u \<noteq> 0 then (u\<lparr>Corrupt := 0\<rparr>, Some ([], Some ErrCorrupt))
      else (case QueuePop (RecvQueue u) (RecvIdMin u) of
              (None, q) \<Rightarrow> (u\<lparr>RecvQueue := q\<rparr>, Some ([], None))
            | (Some m, q) \<Rightarrow>
                (case RemoveMessage
                        (u\<lparr>RecvQueue := q, RecvIdMin := wrap (RecvIdMin u + 1)\<rparr>) m of
                   (u', None) \<Rightarrow> (u', None)
                 | (u', Some _) \<Rightarrow> (u', Some (copy_bytes [] (Buf m), None)))))"

text \<open>
  ClearSendExpired (lines 165-174) walks the history from the Back with \<^verbatim>\<open>e.Prev()\<close>
  and removes an element whose message has \<^verbatim>\<open>Tick >= tick\<close>. As in RemoveMessage,
  \<^verbatim>\<open>e.Prev()\<close> of a removed element is nil, which ends the loop. The loop function
  takes the history in Back-to-Front order.
\<close>

fun ClearSendExpired_loop :: "qval list \<Rightarrow> int \<Rightarrow> qval list" where
  "ClearSendExpired_loop [] tick = []"
| "ClearSendExpired_loop (e # prev) tick =
     (case as_message e of
        Some msg \<Rightarrow> if Tick msg \<ge> tick then prev else e # ClearSendExpired_loop prev tick
      | None \<Rightarrow> e # ClearSendExpired_loop prev tick)"

definition ClearSendExpired :: "RUDP \<Rightarrow> int \<Rightarrow> RUDP" where
  "ClearSendExpired u tick =
     u\<lparr>SendHistory := rev (ClearSendExpired_loop (rev (SendHistory u)) tick)\<rparr>"

section \<open>Sequence window\<close>

text \<open>GetID (lines 176-185). The adjustment constant in the source is \<^verbatim>\<open>0x100000\<close>.\<close>

definition GetID :: "RUDP \<Rightarrow> byte list \<Rightarrow> int option" where
  "GetID u buf = do {
     b0 \<leftarrow> index_at buf 0;
     b1 \<leftarrow> index_at buf 1;
     let idn = uint b0 * 256 + uint b1;
     let idn = idn OR (RecvIdMax u AND (NOT 0xffff));
     Some (if idn < wrap (RecvIdMax u - 0x8000) then wrap (idn + 0x100000)
           else if idn > wrap (RecvIdMax u + 0x8000) then wrap (idn - 0x100000)
           else idn)
   }"

section \<open>Inserting received messages\<close>

text \<open>
  InsertMessage (lines 187-208). An ID below RecvIdMin is ignored. An ID above
  RecvIdMax, or any ID when the queue is empty, becomes a new message pushed on the
  Front of the receive queue, and RecvIdMax is set to it. Otherwise the queue is
  walked from the Back with \<^verbatim>\<open>e.Prev()\<close>; at the first message with a larger ID a
  message is allocated, the session pointer \<open>u\<close> (not the message) is inserted after
  that element, and the function returns. The scan takes the queue in Back-to-Front
  order, where ``after \<open>e\<close>'' is just before it; \<open>None\<close> means no element matched.
  Both branches allocate with NewMessage and panic where it does.
\<close>

fun InsertMessage_scan :: "qval list \<Rightarrow> int \<Rightarrow> qval list option" where
  "InsertMessage_scan [] idn = None"
| "InsertMessage_scan (e # prev) idn =
     (case as_message e of
        Some msg \<Rightarrow>
          if ID msg > idn then Some (RudpVal # e # prev)
          else map_option ((#) e) (InsertMessage_scan prev idn)
      | None \<Rightarrow> map_option ((#) e) (InsertMessage_scan prev idn))"

definition InsertMessage :: "RUDP \<Rightarrow> int \<Rightarrow> byte list \<Rightarrow> int \<Rightarrow> RUDP \<times> unit option" where
  "InsertMessage u idn buf sz =
     (if idn < RecvIdMin u then (u, Some ())
      else if idn > RecvIdMax u \<or> RecvQueue u = [] then
        (case NewMessage u buf sz of
           (u1, None) \<Rightarrow> (u1, None)
         | (u1, Some m) \<Rightarrow>
             let m' = m\<lparr>ID := idn\<rparr>
             in (u1\<lparr>FreeList := set_front (FreeList u1) m',
                     RecvQueue := QueuePush (RecvQueue u1) m',
                     RecvIdMax := idn\<rparr>, Some ()))
      else
        (case InsertMessage_scan (rev (RecvQueue u)) idn of
           None \<Rightarrow> (u, Some ())
         | Some q \<Rightarrow>
             (case NewMessage u buf sz of
                (u1, None) \<Rightarrow> (u1, None)
              | (u1, Some m) \<Rightarrow> (u1\<lparr>RecvQueue := rev q\<rparr>, Some ()))))"

text \<open>AddMissing (lines 210-212): a placeholder is a message of size -1.\<close>

definition AddMissing :: "RUDP \<Rightarrow> int \<Rightarrow> RUDP \<times> unit option" where
  "AddMissing u idn = InsertMessage u idn [] (-1)"

section \<open>Decoding a packet\<close>

text \<open>\<^verbatim>\<open>u.SendAgain.A = append(u.SendAgain.A, id)\<close>; the count \<open>N\<close> is not touched.\<close>

definition append_again :: "RUDP \<Rightarrow> int \<Rightarrow> RUDP" where
  "append_again u idn = u\<lparr>SendAgain := (SendAgain u)\<lparr>IdxA := IdxA (SendAgain u) @ [idn]\<rparr>\<rparr>"

text \<open>
  The head of the loop body of ExtractPackage (lines 216-228): the one- or two-byte
  tag. \<open>HdrCorrupt\<close> is the early return that sets the corrupt flag; \<open>Hdr len buf sz\<close>
  carries the tag with the buffer and the size after the tag.
\<close>

datatype header = HdrCorrupt | Hdr int "byte list" int

definition ExtractHeader :: "byte list \<Rightarrow> int \<Rightarrow> header option" where
  "ExtractHeader buf sz = do {
     b0 \<leftarrow> index_at buf 0;
     let len = uint b0;
     if len > 127 then
       (if sz \<le> 1 then Some HdrCorrupt
        else do {
          b1 \<leftarrow> index_at buf 1;
          buf' \<leftarrow> slice_from buf 2;
          Some (Hdr ((len * 256 + uint b1) AND 0x7fff) buf' (sz - 2))
        })
     else do {
       buf' \<leftarrow> slice_from buf 1;
       Some (Hdr len buf' (sz - 1))
     }
   }"

lemma ExtractHeader_Hdr:
  assumes "ExtractHeader buf sz = Some (Hdr len buf1 sz1)"
  shows "0 \<le> len \<and> sz1 < sz"
proof -
  have "0 \<le> (x::int) AND 0x7fff" for x by simp
  with assms show ?thesis
    by (auto simp: ExtractHeader_def Let_def split: bind_splits if_splits)
qed

text \<open>
  ExtractPackage (lines 214-264): the loop \<^verbatim>\<open>for size > 0\<close> with the switch on the
  tag (lines 229-262). The statements of a case run in the order of the source, so
  that a panic leaves the session as the statements before it made it.
\<close>

function ExtractPackage :: "RUDP \<Rightarrow> byte list \<Rightarrow> int \<Rightarrow> RUDP \<times> unit option" where
  "ExtractPackage u buf sz =
     (if sz > 0 then
        (case ExtractHeader buf sz of
           None \<Rightarrow> (u, None)
         | Some HdrCorrupt \<Rightarrow> (u\<lparr>Corrupt := 1\<rparr>, Some ())
         | Some (Hdr len buf1 sz1) \<Rightarrow>
             if len = TypeIgnore then
               ExtractPackage
                 (if IdxN (SendAgain u) = 0 then append_again u (RecvIdMin u) else u) buf1 sz1
             else if len = TypeCorrupt then (u\<lparr>Corrupt := 1\<rparr>, Some ())
             else if len = TypeRequest \<or> len = TypeMissing then
               (if sz1 < 2 then (u\<lparr>Corrupt := 1\<rparr>, Some ())
                else
                  (case GetID u buf1 of
                     None \<Rightarrow> (u, None)
                   | Some idn \<Rightarrow>
                       (case (if len = TypeRequest then (append_again u idn, Some ())
                              else AddMissing u idn) of
                          (u', None) \<Rightarrow> (u', None)
                        | (u', Some done) \<Rightarrow>
                            (case slice_from buf1 2 of
                               None \<Rightarrow> (u', None)
                             | Some buf2 \<Rightarrow> ExtractPackage u' buf2 (sz1 - 2)))))
             else
               (if sz1 < len - TypeNormal + 2 then (u\<lparr>Corrupt := 1\<rparr>, Some ())
                else
                  (case GetID u buf1 of
                     None \<Rightarrow> (u, None)
                   | Some idn \<Rightarrow>
                       (case slice_from buf1 2 of
                          None \<Rightarrow> (u, None)
                        | Some payload \<Rightarrow>
                            (case InsertMessage u idn payload (len - TypeNormal) of
                               (u', None) \<Rightarrow> (u', None)
                             | (u', Some done) \<Rightarrow>
                                 (case slice_from buf1 (len - TypeNormal + 2) of
                                    None \<Rightarrow> (u', None)
                                  | Some buf2 \<Rightarrow>
                                      ExtractPackage u' buf2
                                        (sz1 - (len - TypeNormal) - 2)))))))
      else (u, Some ()))"
  by pat_completeness auto
termination
proof (relation "measure (\<lambda>(u, buf, sz). nat sz)", goal_cases)
  case 1
  show ?case by simp
next
  case 2
  then show ?case by (auto dest!: ExtractHeader_Hdr)
next
  case 3
  then show ?case by (auto dest!: ExtractHeader_Hdr)
next
  case 4
  then show ?case
    by (auto dest!: ExtractHeader_Hdr
        simp: TypeIgnore_def TypeCorrupt_def TypeRequest_def TypeMissing_def TypeNormal_def)
qed

declare ExtractPackage.simps [simp del]

section \<open>Encoding the outgoing batch\<close>

text \<open>
  TmpBuffer (lines 266-270); its fields Buf and Size are prefixed. \<open>Packages\<close> is a
  \<^verbatim>\<open>*list.List\<close> that no statement of the source allocates.
\<close>

record TmpBuffer =
  TmpBuf :: "byte list"
  TmpSize :: int
  Packages :: "RUDPPackage list option"

text \<open>
  NewPacakge (lines 272-278): \<^verbatim>\<open>p.Buf\<close> is nil when \<^verbatim>\<open>copy(p.Buf, tmp.Buf)\<close> runs;
  \<^verbatim>\<open>tmp.Packages.PushBack(p)\<close> panics on a nil list.
\<close>

definition NewPacakge :: "RUDP \<Rightarrow> TmpBuffer \<Rightarrow> TmpBuffer option" where
  "NewPacakge u tmp =
     (let p = \<lparr>PkgSize = TmpSize tmp, PkgBuf = copy_bytes [] (TmpBuf tmp)\<rparr>
      in case Packages tmp of
           None \<Rightarrow> None
         | Some pk \<Rightarrow> Some (tmp\<lparr>Packages := Some (pk @ [p]), TmpSize := 0\<rparr>))"

text \<open>
  FillHeader (lines 280-297) writes the tag and the wire ID at the start of \<open>buf\<close>.
  The constant or-ed into the first byte of a two-byte tag is \<^verbatim>\<open>0x89\<close> in the
  source. The result is the buffer written, \<open>offset\<close> and \<open>size\<close>.
\<close>

definition FillHeader :: "byte list \<Rightarrow> int \<Rightarrow> int \<Rightarrow> (byte list \<times> int \<times> int) option" where
  "FillHeader buf len idn = do {
     (buf, sz, offset) \<leftarrow>
       (if len < 128 then do {
          buf \<leftarrow> store_at buf 0 (to_byte len);
          Some (buf, 1, 1)
        } else do {
          buf \<leftarrow> store_at buf 0 (to_byte (drop_bit 8 (len AND 0x7f00) OR 0x89));
          buf \<leftarrow> store_at buf 1 (to_byte (len AND 0xff));
          Some (buf, 2, 2)
        });
     buf \<leftarrow> store_at buf offset (to_byte (drop_bit 8 (idn AND 0xff00)));
     buf \<leftarrow> store_at buf (offset + 1) (to_byte (idn AND 0xff));
     Some (buf, offset + 2, sz + 2)
   }"

text \<open>PackRequest (lines 299-306): the header is written at \<^verbatim>\<open>tmp.Buf\<close>, not at
  \<^verbatim>\<open>tmp.Buf + tmp.Size\<close>.\<close>

definition PackRequest :: "RUDP \<Rightarrow> TmpBuffer \<Rightarrow> int \<Rightarrow> int \<Rightarrow> TmpBuffer option" where
  "PackRequest u tmp idn tag = do {
     let sz = wrap (DefaultPackageSize - TmpSize tmp);
     tmp \<leftarrow> (if sz < 3 then NewPacakge u tmp else Some tmp);
     (buf, offset, sz) \<leftarrow> FillHeader (TmpBuf tmp) tag idn;
     Some (tmp\<lparr>TmpBuf := buf, TmpSize := wrap (TmpSize tmp + sz)\<rparr>)
   }"

text \<open>
  PackMessage (lines 308-320) has a body for a message larger than
  \<^verbatim>\<open>DefaultPackageSize-4\<close> only; there is no code for a smaller one. In the body
  \<open>p\<close> is a fresh RUDPPackage, so \<^verbatim>\<open>p.Buf\<close> is nil where FillHeader writes to it.
\<close>

definition PackMessage :: "RUDP \<Rightarrow> TmpBuffer \<Rightarrow> Message \<Rightarrow> TmpBuffer option" where
  "PackMessage u tmp m =
     (if Size m > DefaultPackageSize - 4 then do {
        tmp \<leftarrow> (if TmpSize tmp > 0 then NewPacakge u tmp else Some tmp);
        let p = \<lparr>PkgSize = 0, PkgBuf = []\<rparr>;
        (buf, offset, sz) \<leftarrow> FillHeader (PkgBuf p) (wrap (Size m + TypeNormal)) (ID m);
        hd4 \<leftarrow> slice_to buf 4;
        let p = p\<lparr>PkgBuf := hd4 @ Buf m\<rparr>;
        pk \<leftarrow> Packages tmp;
        Some (tmp\<lparr>Packages := Some (pk @ [p])\<rparr>)
      } else Some tmp)"

text \<open>
  RequestMissing (lines 322-334) walks the receive queue from the Front;
  \<open>PackRequest_range\<close> is the inner loop \<^verbatim>\<open>for i := id; i < ele.ID; i++\<close>.
\<close>

function PackRequest_range :: "RUDP \<Rightarrow> TmpBuffer \<Rightarrow> int \<Rightarrow> int \<Rightarrow> TmpBuffer option" where
  "PackRequest_range u tmp i hi =
     (if i < hi then do {
        tmp' \<leftarrow> PackRequest u tmp i TypeRequest;
        PackRequest_range u tmp' (i + 1) hi
      } else Some tmp)"
  by pat_completeness auto
termination
  by (relation "measure (\<lambda>(u, tmp, i, hi). nat (hi - i))") auto

declare PackRequest_range.simps [simp del]

fun RequestMissing_loop :: "RUDP \<Rightarrow> qval list \<Rightarrow> int \<Rightarrow> TmpBuffer \<Rightarrow> TmpBuffer option" where
  "RequestMissing_loop u [] idn tmp = Some tmp"
| "RequestMissing_loop u (m # next) idn tmp = do {
     ele \<leftarrow> elem_message m;
     tmp' \<leftarrow> (if ID ele > idn then PackRequest_range u tmp idn (ID ele) else Some tmp);
     RequestMissing_loop u next (wrap (ID ele + 1)) tmp'
   }"

definition RequestMissing :: "RUDP \<Rightarrow> TmpBuffer \<Rightarrow> TmpBuffer option" where
  "RequestMissing u tmp = RequestMissing_loop u (RecvQueue u) (RecvIdMin u) tmp"

text \<open>
  ReplyRequest (lines 336-361). \<open>ReplyRequest_scan\<close> is the inner \<^verbatim>\<open>for { }\<close>: the
  cursor \<open>m\<close> into the history is the list of the element and its successors, \<open>[]\<close>
  for nil, and it is returned where the loop breaks. \<open>ReplyRequest_loop\<close> is the
  loop over \<^verbatim>\<open>i < u.SendAgain.N\<close>. The session is assigned only by the last
  statement, so a panic leaves it as it was.
\<close>

fun ReplyRequest_scan ::
  "RUDP \<Rightarrow> TmpBuffer \<Rightarrow> int \<Rightarrow> qval list \<Rightarrow> (TmpBuffer \<times> qval list) option" where
  "ReplyRequest_scan u tmp idn [] = do {
     tmp' \<leftarrow> PackRequest u tmp idn TypeMissing;
     Some (tmp', [])
   }"
| "ReplyRequest_scan u tmp idn (m # next) = do {
     his \<leftarrow> elem_message m;
     if idn < ID his then do {
       tmp' \<leftarrow> PackRequest u tmp idn TypeMissing;
       Some (tmp', m # next)
     } else if idn = ID his then do {
       tmp' \<leftarrow> PackMessage u tmp his;
       Some (tmp', m # next)
     } else ReplyRequest_scan u tmp idn next
   }"

function ReplyRequest_loop :: "RUDP \<Rightarrow> TmpBuffer \<Rightarrow> int \<Rightarrow> qval list \<Rightarrow> TmpBuffer option" where
  "ReplyRequest_loop u tmp i m =
     (if i < IdxN (SendAgain u) then do {
        idn \<leftarrow> index_at (IdxA (SendAgain u)) i;
        if idn < RecvIdMin u then ReplyRequest_loop u tmp (i + 1) m
        else do {
          (tmp', m') \<leftarrow> ReplyRequest_scan u tmp idn m;
          ReplyRequest_loop u tmp' (i + 1) m'
        }
      } else Some tmp)"
  by pat_completeness auto
termination
  by (relation "measure (\<lambda>(u, tmp, i, m). nat (IdxN (SendAgain u) - i))") auto

declare ReplyRequest_loop.simps [simp del]

definition ReplyRequest :: "RUDP \<Rightarrow> TmpBuffer \<Rightarrow> (RUDP \<times> TmpBuffer) option" where
  "ReplyRequest u tmp = do {
     tmp' \<leftarrow> ReplyRequest_loop u tmp 0 (SendHistory u);
     Some (u\<lparr>SendAgain := (SendAgain u)\<lparr>IdxN := 0\<rparr>\<rparr>, tmp')
   }"

text \<open>
  SendMessage (lines 363-370). The first argument of the loop is the cursor \<open>m\<close>, the
  element and its successors. The body removes \<open>m\<close> from the send queue, after which
  \<^verbatim>\<open>m.Next()\<close> is nil (\<^verbatim>\<open>List.Remove\<close> clears the links of the element), so the
  loop goes on with the cursor \<open>[]\<close>. What is pushed on the history is the element
  \<open>m\<close>, not the message. PackMessage comes before the two assignments, so a panic
  leaves the session as it was.
\<close>

fun SendMessage_loop :: "qval list \<Rightarrow> RUDP \<Rightarrow> TmpBuffer \<Rightarrow> (RUDP \<times> TmpBuffer) option" where
  "SendMessage_loop [] u tmp = Some (u, tmp)"
| "SendMessage_loop (m # next) u tmp = do {
     ele \<leftarrow> elem_message m;
     tmp' \<leftarrow> PackMessage u tmp ele;
     let u' = u\<lparr>SendHistory := SendHistory u @ [ElemVal ele],
               SendQueue := remove1 m (SendQueue u)\<rparr>;
     SendMessage_loop [] u' tmp'
   }"

definition SendMessage :: "RUDP \<Rightarrow> TmpBuffer \<Rightarrow> (RUDP \<times> TmpBuffer) option" where
  "SendMessage u tmp = SendMessage_loop (SendQueue u) u tmp"

text \<open>
  GenOutPackage (lines 372-388). \<open>TmpBuffer_zero\<close> is the value of \<^verbatim>\<open>TmpBuffer{}\<close>,
  with a nil \<open>Packages\<close>, on which \<^verbatim>\<open>tmp.Packages.Front()\<close> panics. The source
  declares a \<^verbatim>\<open>*list.List\<close> result and has the return commented out; the model
  returns \<^verbatim>\<open>tmp.Packages\<close>.
\<close>

definition TmpBuffer_zero :: TmpBuffer where
  "TmpBuffer_zero = \<lparr>TmpBuf = replicate 512 0, TmpSize = 0, Packages = None\<rparr>"

definition GenOutPackage :: "RUDP \<Rightarrow> RUDP \<times> RUDPPackage list option option" where
  "GenOutPackage u =
     (let tmp = TmpBuffer_zero\<lparr>TmpSize := 0\<rparr>
      in case RequestMissing u tmp of
           None \<Rightarrow> (u, None)
         | Some tmp1 \<Rightarrow>
             (case ReplyRequest u tmp1 of
                None \<Rightarrow> (u, None)
              | Some (u2, tmp2) \<Rightarrow>
                  (case SendMessage u2 tmp2 of
                     None \<Rightarrow> (u2, None)
                   | Some (u3, tmp3) \<Rightarrow>
                       (case Packages tmp3 of
                          None \<Rightarrow> (u3, None)
                        | Some pk \<Rightarrow>
                            (case (if pk = [] then
                                     (if TmpSize tmp3 = 0 then do {
                                        buf \<leftarrow> store_at (TmpBuf tmp3) 0 (to_byte TypeIgnore);
                                        Some (tmp3\<lparr>TmpBuf := buf, TmpSize := 1\<rparr>)
                                      } else Some tmp3)
                                   else Some tmp3) of
                               None \<Rightarrow> (u3, None)
                             | Some tmp4 \<Rightarrow>
                                 (case NewPacakge u3 tmp4 of
                                    None \<Rightarrow> (u3, None)
                                  | Some tmp5 \<Rightarrow> (u3, Some (Packages tmp5))))))))"

section \<open>Session driver\<close>

text \<open>
  ClearOutPacakge and ClearMessageQueue (lines 76-86) remove while iterating with
  \<^verbatim>\<open>e.Next()\<close>: the loop ends after the first removal, so only the Front element
  goes. \<^verbatim>\<open>l.Front()\<close> panics on a nil list.
\<close>

definition ClearMessageQueue :: "'a list \<Rightarrow> 'a list" where
  "ClearMessageQueue l = (case l of [] \<Rightarrow> [] | e # next \<Rightarrow> next)"

definition ClearOutPacakge :: "RUDP \<Rightarrow> RUDP \<times> unit option" where
  "ClearOutPacakge u =
     (case SendPackage u of
        None \<Rightarrow> (u, None)
      | Some l \<Rightarrow> (u\<lparr>SendPackage := Some (ClearMessageQueue l)\<rparr>, Some ()))"

text \<open>RUDPNew (lines 64-74): four lists are allocated, FreeList is not.\<close>

definition RUDPNew :: "int \<Rightarrow> int \<Rightarrow> RUDP" where
  "RUDPNew sendDlay ExpireTime =
     \<lparr>SendQueue = [], RecvQueue = [], SendHistory = [], SendPackage = Some [],
      FreeList = None,
      SendAgain = \<lparr>IdxCap = 0, IdxN = 0, IdxA = []\<rparr>,
      Corrupt = 0, CurrentTick = 0, LastSendTick = 0, LastExpireTick = 0, SendId = 0,
      RecvIdMin = 0, RecvIdMax = 0, SendDelay = sendDlay, Expired = ExpireTime\<rparr>"

text \<open>RUDPDelete (lines 88-94): the three queues are cleared before FreeList is.\<close>

definition RUDPDelete :: "RUDP \<Rightarrow> RUDP \<times> unit option" where
  "RUDPDelete u =
     (let u1 = u\<lparr>SendQueue := ClearMessageQueue (SendQueue u),
                 RecvQueue := ClearMessageQueue (RecvQueue u),
                 SendHistory := ClearMessageQueue (SendHistory u)\<rparr>
      in case FreeList u1 of
           None \<Rightarrow> (u1, None)
         | Some fl \<Rightarrow> ClearOutPacakge (u1\<lparr>FreeList := Some (ClearMessageQueue fl)\<rparr>))"

text \<open>
  RUDPUpdate (lines 390-406). The result is the list returned, \<open>None\<close> for nil.
\<close>

definition RUDPUpdate ::
  "RUDP \<Rightarrow> byte list \<Rightarrow> int \<Rightarrow> int \<Rightarrow> RUDP \<times> RUDPPackage list option option" where
  "RUDPUpdate u buf sz tick =
     (let u1 = u\<lparr>CurrentTick := wrap (CurrentTick u + tick)\<rparr>
      in case ClearOutPacakge u1 of
           (u2, None) \<Rightarrow> (u2, None)
         | (u2, Some cleared) \<Rightarrow>
             (case ExtractPackage u2 buf sz of
                (u3, None) \<Rightarrow> (u3, None)
              | (u3, Some decoded) \<Rightarrow>
                  let u4 = (if CurrentTick u3 > wrap (LastExpireTick u3 + Expired u3)
                            then (ClearSendExpired u3 (LastExpireTick u3))
                                   \<lparr>LastExpireTick := CurrentTick u3\<rparr>
                            else u3)
                  in if CurrentTick u4 \<ge> wrap (LastSendTick u4 + SendDelay u4) then
                       (case GenOutPackage u4 of
                          (u5, None) \<Rightarrow> (u5, None)
                        | (u5, Some pk) \<Rightarrow>
                            (u5\<lparr>SendPackage := pk, LastSendTick := CurrentTick u5\<rparr>, Some pk))
                     else (u4, Some None)))"

section \<open>Notions used in the statements\<close>

text \<open>An element of a queue is a message with the given ID.\<close>

definition holds_id :: "qval \<Rightarrow> int \<Rightarrow> bool" where
  "holds_id e idn = (case as_message e of Some msg \<Rightarrow> ID msg = idn | None \<Rightarrow> False)"

text \<open>The IDs of the messages of a queue, in the order of the list.\<close>

definition queue_ids :: "qval list \<Rightarrow> int list" where
  "queue_ids q = map ID (List.map_filter as_message q)"

text \<open>
  The record stream as the specification describes it (sections 4.3 and 6), for
  comparison with ExtractPackage. A record starts with a tag of one byte, or of two
  bytes when the first has its high bit set, the tag then being the low 15 bits of
  the pair. Tags 0 to 3 are Ignore, Corrupt, Request and Missing; Request and Missing
  are followed by a two-byte wire ID; a tag \<open>t \<ge> 4\<close> is a Data record, followed by a
  two-byte wire ID and \<open>t - 4\<close> bytes of payload.
\<close>

datatype wire_record =
  RecIgnore | RecCorrupt | RecRequest byte byte | RecMissing byte byte
  | RecData byte byte "byte list"

text \<open>The tag at the head of a buffer and the number of bytes it takes; \<open>None\<close> when
  the buffer ends before the tag is complete.\<close>

definition read_tag :: "byte list \<Rightarrow> (nat \<times> nat) option" where
  "read_tag buf =
     (case buf of
        [] \<Rightarrow> None
      | b0 # rest \<Rightarrow>
          if unat b0 \<le> 127 then Some (unat b0, 1)
          else (case rest of
                  [] \<Rightarrow> None
                | b1 # _ \<Rightarrow> Some ((unat b0 * 256 + unat b1) mod 32768, 2)))"

text \<open>The number of bytes a tag declares to follow it.\<close>

definition record_length :: "nat \<Rightarrow> nat" where
  "record_length t =
     (if t = 0 \<or> t = 1 then 0 else if t = 2 \<or> t = 3 then 2 else 2 + (t - 4))"

text \<open>
  The first record of a buffer with its total length; \<open>None\<close> when the record is
  truncated: the tag is incomplete, or fewer bytes remain than the tag declares.
\<close>

definition next_record :: "byte list \<Rightarrow> (wire_record \<times> nat) option" where
  "next_record buf =
     (case read_tag buf of
        None \<Rightarrow> None
      | Some (t, h) \<Rightarrow>
          if length buf < h + record_length t then None
          else Some
            (if t = 0 then RecIgnore
             else if t = 1 then RecCorrupt
             else if t = 2 then RecRequest (buf ! h) (buf ! (h + 1))
             else if t = 3 then RecMissing (buf ! h) (buf ! (h + 1))
             else RecData (buf ! h) (buf ! (h + 1)) (take (t - 4) (drop (h + 2) buf)),
             h + record_length t))"

text \<open>What one complete record does to the session (the session that AddMissing and
  InsertMessage leave).\<close>

fun apply_record :: "RUDP \<Rightarrow> wire_record \<Rightarrow> RUDP" where
  "apply_record u RecIgnore =
     (if IdxN (SendAgain u) = 0 then append_again u (RecvIdMin u) else u)"
| "apply_record u RecCorrupt = u\<lparr>Corrupt := 1\<rparr>"
| "apply_record u (RecRequest hi lo) =
     (case GetID u [hi, lo] of Some idn \<Rightarrow> append_again u idn | None \<Rightarrow> u)"
| "apply_record u (RecMissing hi lo) =
     (case GetID u [hi, lo] of Some idn \<Rightarrow> fst (AddMissing u idn) | None \<Rightarrow> u)"
| "apply_record u (RecData hi lo payload) =
     (case GetID u [hi, lo] of
        Some idn \<Rightarrow> fst (InsertMessage u idn payload (int (length payload)))
      | None \<Rightarrow> u)"

text \<open>
  Whether the calls that a complete record leads to return: \<open>None\<close> when GetID,
  AddMissing or InsertMessage panics.
\<close>

fun record_result :: "RUDP \<Rightarrow> wire_record \<Rightarrow> unit option" where
  "record_result u RecIgnore = Some ()"
| "record_result u RecCorrupt = Some ()"
| "record_result u (RecRequest hi lo) = map_option (\<lambda>idn. ()) (GetID u [hi, lo])"
| "record_result u (RecMissing hi lo) =
     (case GetID u [hi, lo] of Some idn \<Rightarrow> snd (AddMissing u idn) | None \<Rightarrow> None)"
| "record_result u (RecData hi lo payload) =
     (case GetID u [hi, lo] of
        Some idn \<Rightarrow> snd (InsertMessage u idn payload (int (length payload)))
      | None \<Rightarrow> None)"

lemma next_record_consumes:
  "next_record buf = Some (r, n) \<Longrightarrow> 0 < n \<and> n \<le> length buf"
  by (auto simp: next_record_def read_tag_def split: option.splits list.splits if_splits)

text \<open>
  \<open>decode\<close> in the words of the specification: records are taken from left to right,
  each consuming its declared length; a truncated record or a Corrupt record sets
  the corrupt flag and ends the decoding, the rest of the buffer being left alone.
\<close>

function decode :: "RUDP \<Rightarrow> byte list \<Rightarrow> RUDP" where
  "decode u buf =
     (if buf = [] then u
      else (case next_record buf of
              None \<Rightarrow> u\<lparr>Corrupt := 1\<rparr>
            | Some (r, n) \<Rightarrow>
                if r = RecCorrupt then u\<lparr>Corrupt := 1\<rparr>
                else decode (apply_record u r) (drop n buf)))"
  by pat_completeness auto
termination
proof (relation "measure (\<lambda>(u, buf). length buf)", goal_cases)
  case 1
  show ?case by simp
next
  case (2 u buf x2 r n)
  then show ?case using next_record_consumes [of buf r n] by simp
qed

declare decode.simps [simp del]

section \<open>Verification\<close>

subsection \<open>Wrap-around and nil slices\<close>

text \<open>A value in the range of a 64-bit integer is kept as it is.\<close>

lemma wrap_id: "- (2 ^ 63) \<le> x \<Longrightarrow> x < 2 ^ 63 \<Longrightarrow> wrap x = x"
  by (simp add: wrap_def)

lemma wrap_mod: "wrap x mod 65536 = x mod 65536"
proof -
  have d: "(65536::int) dvd 2 ^ 64" by simp
  have z: "(2 ^ 63 :: int) mod 65536 = 0" by simp
  have "wrap x mod 65536 = ((x + 2 ^ 63) mod 2 ^ 64 mod 65536 - 2 ^ 63 mod 65536) mod 65536"
    unfolding wrap_def by (rule mod_diff_eq [symmetric])
  also have "\<dots> = ((x + 2 ^ 63) mod 65536) mod 65536"
    by (simp only: mod_mod_cancel [OF d] z diff_zero)
  also have "\<dots> = (x mod 65536 + 2 ^ 63 mod 65536) mod 65536"
    by (simp only: mod_mod_trivial mod_add_eq)
  also have "\<dots> = x mod 65536"
    by (simp only: z add_0_right mod_mod_trivial)
  finally show ?thesis .
qed

lemma copy_bytes_nil [simp]: "copy_bytes [] src = []"
  by (simp add: copy_bytes_def)

subsection \<open>Sequence-number extension\<close>

lemma hi_bits: "(M::int) AND - 65536 = push_bit 16 (drop_bit 16 M)"
proof -
  have m: "(- 65536::int) = NOT (mask 16)" by (simp add: not_int_def mask_eq_exp_minus_1)
  have "M AND NOT (mask 16) = push_bit 16 (drop_bit 16 M)"
    by (rule bit_eqI) (auto simp add: bit_simps)
  then show ?thesis by (simp only: m)
qed

lemma or_hi_bits:
  assumes "0 \<le> w" "w < 65536"
  shows "(w::int) OR (M AND - 65536) = w + 65536 * (M div 65536)"
proof -
  have w: "take_bit 16 w = w" using assms by (simp add: take_bit_int_eq_self)
  have "w OR (M AND - 65536) = concat_bit 16 w (drop_bit 16 M)"
    by (simp only: hi_bits concat_bit_def w)
  also have "\<dots> = w + push_bit 16 (drop_bit 16 M)"
    by (simp only: concat_bit_eq w)
  finally show ?thesis by (simp add: push_bit_eq_mult drop_bit_eq_div)
qed

lemma byte_bound: "uint (b::byte) < 256"
  using uint_lt2p [of b] by simp

lemma wire_range:
  "0 \<le> uint (hi::byte) * 256 + uint (lo::byte) \<and> uint hi * 256 + uint lo < 65536"
  using byte_bound [of hi] byte_bound [of lo] uint_ge_0 [of hi] uint_ge_0 [of lo] by linarith

lemma GetID_two_bytes:
  "GetID u (hi # lo # rest) =
     Some (let c = uint hi * 256 + uint lo + 65536 * (RecvIdMax u div 65536)
           in if c < wrap (RecvIdMax u - 32768) then wrap (c + 1048576)
              else if c > wrap (RecvIdMax u + 32768) then wrap (c - 1048576) else c)"
proof -
  have "(uint hi * 256 + uint lo) OR (RecvIdMax u AND - 65536)
        = uint hi * 256 + uint lo + 65536 * (RecvIdMax u div 65536)"
    using wire_range [of hi lo] by (intro or_hi_bits) simp_all
  then show ?thesis
    by (simp add: GetID_def index_at_def Let_def)
qed

text \<open>
  Claim C1, as the code has it. Let \<open>M = RecvIdMax u\<close> be at least 32768 away from
  both ends of the 64-bit range, so that \<^verbatim>\<open>u.RecvIdMax-0x8000\<close> and
  \<^verbatim>\<open>u.RecvIdMax+0x8000\<close> do not overflow. For a buffer that starts with the wire
  bytes \<open>hi\<close>, \<open>lo\<close>, with \<open>w = hi * 256 + lo\<close>, GetID returns an extended ID whose low
  16 bits are \<open>w\<close>. Let \<open>c\<close> be \<open>w\<close> under the high bits of \<open>M\<close>. Whenever \<open>c\<close> lies
  in the closed interval from \<open>M - 32768\<close> to \<open>M + 32768\<close>, GetID returns \<open>c\<close> itself;
  both ends are included, so at distance exactly 32768 above \<open>M\<close> the result is
  \<open>M + 32768\<close>. Nothing is stated about which ID is returned when \<open>c\<close> is further
  away (the source adjusts by \<^verbatim>\<open>0x100000\<close> there).
\<close>

theorem GetID_extend:
  fixes hi lo :: byte and u :: RUDP
  defines "w \<equiv> uint hi * 256 + uint lo"
  defines "c \<equiv> w + 65536 * (RecvIdMax u div 65536)"
  assumes lo: "- (2 ^ 63) + 32768 \<le> RecvIdMax u" and hi: "RecvIdMax u < 2 ^ 63 - 32768"
  shows "\<exists>r. GetID u (hi # lo # rest) = Some r \<and> r mod 65536 = w \<and>
           (RecvIdMax u - 32768 \<le> c \<and> c \<le> RecvIdMax u + 32768 \<longrightarrow> r = c)"
proof -
  define r where
    "r = (if c < wrap (RecvIdMax u - 32768) then wrap (c + 1048576)
          else if c > wrap (RecvIdMax u + 32768) then wrap (c - 1048576) else c)"
  have w: "0 \<le> w" "w < 65536"
    using wire_range [of hi lo] by (simp_all add: w_def)
  have "(w + 65536 * k) mod 65536 = w" for k
    using w by simp
  then have c: "c mod 65536 = w"
    by (simp add: c_def)
  have "(c + 65536 * 16) mod 65536 = c mod 65536"
    by (simp only: mod_mult_self2)
  moreover have "(c - 65536 * 16) mod 65536 = c mod 65536"
    by (simp only: mod_diff_eq [symmetric, of c "65536 * 16" 65536] mod_mult_self1_is_0
        diff_zero mod_mod_trivial)
  ultimately have "(c + 1048576) mod 65536 = w" "(c - 1048576) mod 65536 = w"
    using c by simp_all
  with c have low: "r mod 65536 = w"
    by (simp add: r_def wrap_mod)
  have below: "wrap (RecvIdMax u - 32768) = RecvIdMax u - 32768"
    using lo hi by (intro wrap_id) simp_all
  have above: "wrap (RecvIdMax u + 32768) = RecvIdMax u + 32768"
    using lo hi by (intro wrap_id) simp_all
  have near: "RecvIdMax u - 32768 \<le> c \<and> c \<le> RecvIdMax u + 32768 \<longrightarrow> r = c"
    by (simp add: r_def below above)
  have "GetID u (hi # lo # rest) = Some r"
    by (simp add: GetID_two_bytes r_def c_def w_def Let_def)
  with low near show ?thesis
    by blast
qed

theorem GetID_extend_witness:
  "- (2 ^ 63) + 32768 \<le> RecvIdMax ((RUDPNew 0 0)\<lparr>RecvIdMax := 70000\<rparr>) \<and>
   RecvIdMax ((RUDPNew 0 0)\<lparr>RecvIdMax := 70000\<rparr>) < 2 ^ 63 - 32768 \<and>
   RecvIdMax ((RUDPNew 0 0)\<lparr>RecvIdMax := 70000\<rparr>) - 32768 \<le> 70536 \<and>
   70536 \<le> RecvIdMax ((RUDPNew 0 0)\<lparr>RecvIdMax := 70000\<rparr>) + 32768 \<and>
   GetID ((RUDPNew 0 0)\<lparr>RecvIdMax := 70000\<rparr>) [0x13, 0x88] = Some 70536"
  using GetID_extend [where u = "(RUDPNew 0 0)\<lparr>RecvIdMax := 70000\<rparr>" and hi = "0x13"
          and lo = "0x88" and rest = "[]"]
  by (simp add: RUDPNew_def)

text \<open>
  Claim C1 as stated fails. With \<open>M = 0\<close> and wire ID \<^verbatim>\<open>0x8000\<close> the result is 32768,
  which is not below \<open>M + 32768\<close>. With \<open>M = 131071\<close> and wire ID 0 the candidate 65536
  is adjusted by \<^verbatim>\<open>0x100000\<close> to 1114112, far outside the window.
\<close>

theorem GetID_outside_window:
  "GetID (RUDPNew 0 0) [0x80, 0x00] = Some 32768 \<and>
   \<not> (32768 < RecvIdMax (RUDPNew 0 0) + 32768) \<and>
   GetID ((RUDPNew 0 0)\<lparr>RecvIdMax := 131071\<rparr>) [0x00, 0x00] = Some 1114112 \<and>
   \<not> (1114112 < RecvIdMax ((RUDPNew 0 0)\<lparr>RecvIdMax := 131071\<rparr>) + 32768)"
  by (simp add: GetID_two_bytes RUDPNew_def wrap_def)

text \<open>
  At the top of the 64-bit range the upper guard overflows: with \<open>M\<close> the largest
  64-bit integer and wire ID \<^verbatim>\<open>0xffff\<close> the candidate is \<open>M\<close> itself, but
  \<^verbatim>\<open>u.RecvIdMax+0x8000\<close> is negative, so the candidate counts as above the window
  and is lowered by \<^verbatim>\<open>0x100000\<close>.
\<close>

lemma GetID_at_MaxInt:
  "GetID ((RUDPNew 0 0)\<lparr>RecvIdMax := 2 ^ 63 - 1\<rparr>) [0xFF, 0xFF] = Some (2 ^ 63 - 1 - 1048576)"
  by (simp add: GetID_two_bytes RUDPNew_def wrap_def)

subsection \<open>The corrupt flag in RUDPRecv\<close>

text \<open>
  Claim C6. When the corrupt flag is set, RUDPRecv clears it and returns ErrCorrupt
  with no bytes; the session is otherwise unchanged, in particular the receive queue
  and RecvIdMin. The RUDPRecv that follows does not return the error: its error is
  nil, unless it does not return at all, a panic in RemoveMessage that takes a nil
  FreeList.
\<close>

theorem RUDPRecv_corrupt_once:
  assumes "Corrupt u \<noteq> 0"
  shows "RUDPRecv u = (u\<lparr>Corrupt := 0\<rparr>, Some ([], Some ErrCorrupt)) \<and>
         (case snd (RUDPRecv (fst (RUDPRecv u))) of
            None \<Rightarrow> FreeList u = None
          | Some (res, err) \<Rightarrow> err = None)"
  using assms
  by (simp add: RUDPRecv_def RemoveMessage_def split: prod.splits option.splits)

lemma ExtractPackage_corrupt_record:
  "ExtractPackage (RUDPNew 0 0) [0x01] 1 = ((RUDPNew 0 0)\<lparr>Corrupt := 1\<rparr>, Some ())"
  by (simp add: ExtractPackage.simps ExtractHeader_def index_at_def slice_from_def
      TypeIgnore_def TypeCorrupt_def)

theorem RUDPRecv_corrupt_once_witness:
  "Corrupt (fst (ExtractPackage (RUDPNew 0 0) [0x01] 1)) \<noteq> 0 \<and>
   RUDPRecv (fst (ExtractPackage (RUDPNew 0 0) [0x01] 1)) =
     (RUDPNew 0 0, Some ([], Some ErrCorrupt)) \<and>
   RUDPRecv (fst (RUDPRecv (fst (ExtractPackage (RUDPNew 0 0) [0x01] 1)))) =
     (RUDPNew 0 0, Some ([], None))"
  using RUDPRecv_corrupt_once [of "fst (ExtractPackage (RUDPNew 0 0) [0x01] 1)"]
  by (simp add: ExtractPackage_corrupt_record) (simp add: RUDPNew_def RUDPRecv_def)

subsection \<open>Receiving the next message\<close>

lemma QueuePop_found:
  "\<forall>e\<in>set xs. \<not> holds_id e idn \<Longrightarrow> ID m = idn \<Longrightarrow>
   QueuePop (xs @ MsgVal m # ys) idn = (Some m, xs @ ys)"
  by (induction xs) (auto simp: holds_id_def split: option.splits)

lemma QueuePop_absent:
  "\<forall>e\<in>set q. \<not> holds_id e idn \<Longrightarrow> QueuePop q idn = (None, q)"
  by (induction q) (auto simp: holds_id_def split: option.splits)

text \<open>
  Claim C2, as the code has it. Let the corrupt flag be clear. When the receive queue
  holds a message with \<open>ID = RecvIdMin\<close>, FreeList is allocated and RecvIdMin is not
  the largest 64-bit integer, RUDPRecv removes the first such message from the queue,
  whether it holds a payload or is a placeholder of size -1, increments RecvIdMin by
  one, removes the message from FreeList and returns no error. When no element of the
  queue is a message with that ID, the session is unchanged and nothing is returned.
  Which bytes are returned with a message is not stated.
\<close>

theorem RUDPRecv_pops_min:
  assumes "Corrupt u = 0"
  shows "(RecvQueue u = xs @ MsgVal m # ys \<and> ID m = RecvIdMin u \<and>
          (\<forall>e\<in>set xs. \<not> holds_id e (RecvIdMin u)) \<and>
          FreeList u = Some fl \<and> - (2 ^ 63) \<le> RecvIdMin u \<and> RecvIdMin u < 2 ^ 63 - 1 \<longrightarrow>
            fst (RUDPRecv u) =
              u\<lparr>RecvQueue := xs @ ys, RecvIdMin := RecvIdMin u + 1,
                FreeList := Some (RemoveMessage_loop fl m)\<rparr> \<and>
            map_option snd (snd (RUDPRecv u)) = Some None) \<and>
         ((\<forall>e\<in>set (RecvQueue u). \<not> holds_id e (RecvIdMin u)) \<longrightarrow>
            RUDPRecv u = (u, Some ([], None)))"
proof (intro conjI impI)
  assume h: "RecvQueue u = xs @ MsgVal m # ys \<and> ID m = RecvIdMin u \<and>
          (\<forall>e\<in>set xs. \<not> holds_id e (RecvIdMin u)) \<and>
          FreeList u = Some fl \<and> - (2 ^ 63) \<le> RecvIdMin u \<and> RecvIdMin u < 2 ^ 63 - 1"
  then have pop: "QueuePop (RecvQueue u) (RecvIdMin u) = (Some m, xs @ ys)"
    using QueuePop_found [of xs "RecvIdMin u" m ys] by simp
  from h have inc: "wrap (RecvIdMin u + 1) = RecvIdMin u + 1"
    by (intro wrap_id) simp_all
  from h have fl: "FreeList u = Some fl" by simp
  show "fst (RUDPRecv u) =
              u\<lparr>RecvQueue := xs @ ys, RecvIdMin := RecvIdMin u + 1,
                FreeList := Some (RemoveMessage_loop fl m)\<rparr>"
    using assms pop inc fl by (simp add: RUDPRecv_def RemoveMessage_def)
  show "map_option snd (snd (RUDPRecv u)) = Some None"
    using assms pop fl by (simp add: RUDPRecv_def RemoveMessage_def)
next
  assume "\<forall>e\<in>set (RecvQueue u). \<not> holds_id e (RecvIdMin u)"
  then have "QueuePop (RecvQueue u) (RecvIdMin u) = (None, RecvQueue u)"
    by (rule QueuePop_absent)
  then show "RUDPRecv u = (u, Some ([], None))"
    using assms by (simp add: RUDPRecv_def)
qed

text \<open>
  The session used below is the new session after the caller has allocated FreeList
  (\<^verbatim>\<open>u.FreeList = list.New()\<close>, the field is exported) and AddMissing has queued the
  placeholder for ID 0.
\<close>

lemma new_addr_empty: "new_addr ((RUDPNew sd ex)\<lparr>FreeList := Some []\<rparr>) = 1"
  by (simp add: new_addr_def RUDPNew_def)

lemma AddMissing_fresh:
  "AddMissing ((RUDPNew sd ex)\<lparr>FreeList := Some []\<rparr>) 0 =
     ((RUDPNew sd ex)\<lparr>
        RecvQueue := [MsgVal \<lparr>Addr = 1, Size = - 1, Cap = 512, ID = 0, Tick = 0, Buf = []\<rparr>],
        FreeList := Some [MsgVal \<lparr>Addr = 1, Size = - 1, Cap = 512, ID = 0, Tick = 0, Buf = []\<rparr>]\<rparr>,
      Some ())"
  by (simp add: AddMissing_def InsertMessage_def NewMessage_def new_addr_empty QueuePush_def
      set_front_def DefaultPackageSize_def Let_def)
     (simp add: RUDPNew_def)

theorem RUDPRecv_pops_min_witness:
  "Corrupt (fst (AddMissing ((RUDPNew 0 0)\<lparr>FreeList := Some []\<rparr>) 0)) = 0 \<and>
   RecvQueue (fst (AddMissing ((RUDPNew 0 0)\<lparr>FreeList := Some []\<rparr>) 0)) =
     [] @ MsgVal \<lparr>Addr = 1, Size = - 1, Cap = 512, ID = 0, Tick = 0, Buf = []\<rparr> # [] \<and>
   FreeList (fst (AddMissing ((RUDPNew 0 0)\<lparr>FreeList := Some []\<rparr>) 0)) =
     Some [MsgVal \<lparr>Addr = 1, Size = - 1, Cap = 512, ID = 0, Tick = 0, Buf = []\<rparr>] \<and>
   RecvIdMin (fst (AddMissing ((RUDPNew 0 0)\<lparr>FreeList := Some []\<rparr>) 0)) = 0 \<and>
   fst (RUDPRecv (fst (AddMissing ((RUDPNew 0 0)\<lparr>FreeList := Some []\<rparr>) 0))) =
     (RUDPNew 0 0)\<lparr>RecvIdMin := 1, FreeList := Some []\<rparr> \<and>
   snd (RUDPRecv (fst (AddMissing ((RUDPNew 0 0)\<lparr>FreeList := Some []\<rparr>) 0))) =
     Some ([], None) \<and>
   Corrupt (RUDPNew 0 0) = 0 \<and>
   RecvQueue (RUDPNew 0 0) = [] \<and>
   RUDPRecv (RUDPNew 0 0) = (RUDPNew 0 0, Some ([], None))"
proof -
  let ?m = "\<lparr>Addr = 1, Size = - 1, Cap = 512, ID = 0, Tick = 0, Buf = []\<rparr> :: Message"
  let ?u = "fst (AddMissing ((RUDPNew 0 0)\<lparr>FreeList := Some []\<rparr>) 0)"
  have a: "Corrupt ?u = 0" "RecvQueue ?u = [MsgVal ?m]" "FreeList ?u = Some [MsgVal ?m]"
    "RecvIdMin ?u = 0"
    by (simp_all add: AddMissing_fresh) (simp_all add: RUDPNew_def)
  have r: "snd (RUDPRecv ?u) = Some ([], None)"
    by (simp add: AddMissing_fresh RUDPRecv_def RemoveMessage_def) (simp add: RUDPNew_def)
  have e: "?u\<lparr>RecvQueue := [], RecvIdMin := 1, FreeList := Some []\<rparr> =
           (RUDPNew 0 0)\<lparr>RecvIdMin := 1, FreeList := Some []\<rparr>"
    by (simp add: AddMissing_fresh) (simp add: RUDPNew_def)
  have b: "Corrupt (RUDPNew 0 0) = 0" "RecvQueue (RUDPNew 0 0) = []"
    by (simp_all add: RUDPNew_def)
  from RUDPRecv_pops_min [of ?u "[]" ?m "[]" "[MsgVal ?m]"]
       RUDPRecv_pops_min [of "RUDPNew 0 0" "[]" ?m "[]" "[]"] a r e b
  show ?thesis
    by simp
qed

text \<open>
  Claim C2 as stated fails for a placeholder. After \<open>AddMissing\<close> on a new session
  with an allocated FreeList the queue holds the placeholder for ID 0 and
  \<open>RecvIdMin = 0\<close>; RUDPRecv removes it and sets RecvIdMin to 1, where the claim has
  the queue and RecvIdMin unchanged.
\<close>

theorem RUDPRecv_takes_placeholder:
  "RecvQueue (fst (AddMissing ((RUDPNew 0 0)\<lparr>FreeList := Some []\<rparr>) 0)) =
     [MsgVal \<lparr>Addr = 1, Size = - 1, Cap = 512, ID = 0, Tick = 0, Buf = []\<rparr>] \<and>
   RecvIdMin (fst (AddMissing ((RUDPNew 0 0)\<lparr>FreeList := Some []\<rparr>) 0)) = 0 \<and>
   RecvQueue (fst (RUDPRecv (fst (AddMissing ((RUDPNew 0 0)\<lparr>FreeList := Some []\<rparr>) 0)))) = [] \<and>
   RecvIdMin (fst (RUDPRecv (fst (AddMissing ((RUDPNew 0 0)\<lparr>FreeList := Some []\<rparr>) 0)))) = 1"
  by (simp add: AddMissing_fresh RUDPRecv_def RemoveMessage_def wrap_def) (simp add: RUDPNew_def)

text \<open>
  RemoveMessage removes the message popped, not one that looks like it. After Data
  records for the IDs 0, 2 and 1 with payloads of one size, FreeList holds two
  messages that differ in their address only: the one queued for ID 0 and the one
  allocated for ID 1, which was never queued and kept ID 0. RUDPRecv pops the first
  and removes it from FreeList; the second stays.
\<close>

lemma RemoveMessage_by_pointer:
  "FreeList (fst (InsertMessage (fst (InsertMessage (fst (InsertMessage
      ((RUDPNew 0 0)\<lparr>FreeList := Some []\<rparr>) 0 [] 1)) 2 [] 1)) 1 [] 1)) =
     Some [MsgVal \<lparr>Addr = 3, Size = 1, Cap = 512, ID = 0, Tick = 0, Buf = []\<rparr>,
           MsgVal \<lparr>Addr = 2, Size = 1, Cap = 512, ID = 2, Tick = 0, Buf = []\<rparr>,
           MsgVal \<lparr>Addr = 1, Size = 1, Cap = 512, ID = 0, Tick = 0, Buf = []\<rparr>] \<and>
   FreeList (fst (RUDPRecv (fst (InsertMessage (fst (InsertMessage (fst (InsertMessage
      ((RUDPNew 0 0)\<lparr>FreeList := Some []\<rparr>) 0 [] 1)) 2 [] 1)) 1 [] 1)))) =
     Some [MsgVal \<lparr>Addr = 3, Size = 1, Cap = 512, ID = 0, Tick = 0, Buf = []\<rparr>,
           MsgVal \<lparr>Addr = 2, Size = 1, Cap = 512, ID = 2, Tick = 0, Buf = []\<rparr>]"
  by (simp add: InsertMessage_def NewMessage_def new_addr_def QueuePush_def set_front_def
      RUDPRecv_def RemoveMessage_def DefaultPackageSize_def RUDPNew_def wrap_def Let_def)

subsection \<open>Inserting at the high end of the receive queue\<close>

lemma queue_ids_append: "queue_ids (xs @ ys) = queue_ids xs @ queue_ids ys"
  by (simp add: queue_ids_def map_filter_def)

lemma queue_ids_MsgVal: "queue_ids [MsgVal m] = [ID m]"
  by (simp add: queue_ids_def)

lemma queue_ids_rev: "set (queue_ids (rev q)) = set (queue_ids q)"
  by (auto simp: queue_ids_def map_filter_def)

text \<open>An ID below RecvIdMin leaves the session unchanged.\<close>

lemma InsertMessage_below_min:
  "idn < RecvIdMin u \<Longrightarrow> InsertMessage u idn buf sz = (u, Some ())"
  by (simp add: InsertMessage_def)

text \<open>
  For an ID not below RecvIdMin that is above RecvIdMax, or when the receive queue is
  empty, InsertMessage calls NewMessage. On a nil FreeList that call panics and the
  session is as before.
\<close>

lemma InsertMessage_push_nil:
  assumes "FreeList u = None" "RecvIdMin u \<le> idn" "RecvIdMax u < idn \<or> RecvQueue u = []"
  shows "InsertMessage u idn buf sz = (u, None)"
  using assms by (auto simp: InsertMessage_def NewMessage_def Let_def)

text \<open>
  On an allocated FreeList the new message is pushed on the Front of the receive
  queue, RecvIdMax is set to the ID, and only FreeList changes besides. The Front is
  the high-ID end: if the queue read from the Back was strictly ascending with no ID
  above RecvIdMax, it is strictly ascending with the new message too.
\<close>

lemma InsertMessage_push:
  fixes u :: RUDP and idn sz :: int and buf :: "byte list"
  defines "m \<equiv> \<lparr>Addr = new_addr u, Size = sz, Cap = DefaultPackageSize, ID = idn, Tick = 0,
                  Buf = []\<rparr>"
  assumes "FreeList u = Some fl" "RecvIdMin u \<le> idn" "RecvIdMax u < idn \<or> RecvQueue u = []"
  shows "InsertMessage u idn buf sz =
           (u\<lparr>FreeList := Some (MsgVal m # fl), RecvQueue := MsgVal m # RecvQueue u,
              RecvIdMax := idn\<rparr>, Some ())"
  using assms(2-)
  by (auto simp: m_def InsertMessage_def NewMessage_def QueuePush_def set_front_def Let_def)

lemma InsertMessage_push_ascending:
  assumes "RecvIdMax u < idn \<or> RecvQueue u = []"
    and "sorted_wrt (<) (queue_ids (rev (RecvQueue u)))"
    and "\<forall>i\<in>set (queue_ids (RecvQueue u)). i \<le> RecvIdMax u"
    and "ID m = idn"
  shows "sorted_wrt (<) (queue_ids (rev (MsgVal m # RecvQueue u)))"
proof -
  have "\<forall>i\<in>set (queue_ids (rev (RecvQueue u))). i < idn"
  proof (cases "RecvQueue u = []")
    case True
    then show ?thesis by (simp add: queue_ids_def)
  next
    case False
    with assms(1) have "RecvIdMax u < idn" by simp
    with assms(3) show ?thesis by (fastforce simp: queue_ids_rev)
  qed
  with assms(2,4) show ?thesis
    by (simp add: queue_ids_append queue_ids_MsgVal sorted_wrt_append)
qed

text \<open>
  Claim C5 on the session RUDPNew returns, with ID 0 and a payload of one byte. The
  receive queue is empty and the ID is not below RecvIdMin, so the claim has the
  message appended and RecvIdMax set. RUDPNew leaves FreeList nil, so
  \<^verbatim>\<open>u.FreeList.PushFront(ele)\<close> in NewMessage panics: the call does not return, and
  the session is as it was, with an empty receive queue.
\<close>

theorem InsertMessage_panics_on_new_session:
  "RecvQueue (RUDPNew 0 0) = [] \<and> \<not> (0 < RecvIdMin (RUDPNew 0 0)) \<and>
   InsertMessage (RUDPNew 0 0) 0 [0x41] 1 = (RUDPNew 0 0, None)"
  by (simp add: InsertMessage_def NewMessage_def Let_def) (simp add: RUDPNew_def)

subsection \<open>History expiry\<close>

text \<open>No element is removed unless it is a message with \<open>Tick \<ge> tick\<close>.\<close>

lemma ClearSendExpired_loop_keeps_old:
  "filter (\<lambda>e. \<not> (\<exists>m. as_message e = Some m \<and> Tick m \<ge> tick)) (ClearSendExpired_loop q tick)
   = filter (\<lambda>e. \<not> (\<exists>m. as_message e = Some m \<and> Tick m \<ge> tick)) q"
  by (induction q) (auto split: option.splits)

text \<open>
  Claim C3 on a history of two messages sent at ticks 1 and 5, expired with tick 3:
  the message of tick 1 stays and the message of tick 5 is removed. The claim has it
  the other way round. An entry as SendMessage pushes it, the list element of a
  message of tick 1, stays as well.
\<close>

theorem ClearSendExpired_drops_recent:
  "SendHistory (ClearSendExpired
     ((RUDPNew 0 0)\<lparr>SendHistory :=
        [MsgVal \<lparr>Addr = 1, Size = 1, Cap = 512, ID = 1, Tick = 1, Buf = []\<rparr>,
         MsgVal \<lparr>Addr = 2, Size = 1, Cap = 512, ID = 2, Tick = 5, Buf = []\<rparr>]\<rparr>) 3)
   = [MsgVal \<lparr>Addr = 1, Size = 1, Cap = 512, ID = 1, Tick = 1, Buf = []\<rparr>] \<and>
   SendHistory (ClearSendExpired
     ((RUDPNew 0 0)\<lparr>SendHistory :=
        [ElemVal \<lparr>Addr = 1, Size = 1, Cap = 512, ID = 1, Tick = 1, Buf = []\<rparr>]\<rparr>) 3)
   = [ElemVal \<lparr>Addr = 1, Size = 1, Cap = 512, ID = 1, Tick = 1, Buf = []\<rparr>]"
  by (simp add: ClearSendExpired_def)

subsection \<open>Fresh sends\<close>

text \<open>
  A SendMessage that returns has moved the Front element of the send queue to the
  history, as a list element, and nothing else; for a message of at most 508 bytes the
  outgoing buffer is as before.
\<close>

lemma SendMessage_moves_one:
  assumes "SendQueue u = e # es" "SendMessage u tmp = Some (u', tmp')"
  shows "SendQueue u' = es \<and> (\<exists>m. SendHistory u' = SendHistory u @ [ElemVal m]) \<and>
         (\<forall>m. elem_message e = Some m \<and> Size m \<le> DefaultPackageSize - 4 \<longrightarrow> tmp' = tmp)"
  using assms
  by (auto simp: SendMessage_def PackMessage_def split: bind_splits if_splits)

text \<open>Two calls of RUDPSend on a new session whose FreeList the caller has allocated.\<close>

lemma RUDPSend_twice:
  "fst (RUDPSend (fst (RUDPSend ((RUDPNew 0 0)\<lparr>FreeList := Some []\<rparr>) [1] 1)) [2] 1) =
     (RUDPNew 0 0)\<lparr>
       SendQueue := [MsgVal \<lparr>Addr = 2, Size = 1, Cap = 512, ID = 2, Tick = 0, Buf = []\<rparr>,
                     MsgVal \<lparr>Addr = 1, Size = 1, Cap = 512, ID = 1, Tick = 0, Buf = []\<rparr>],
       FreeList := Some [MsgVal \<lparr>Addr = 2, Size = 1, Cap = 512, ID = 2, Tick = 0, Buf = []\<rparr>,
                    MsgVal \<lparr>Addr = 1, Size = 1, Cap = 512, ID = 1, Tick = 0, Buf = []\<rparr>],
       SendId := 2\<rparr>"
  by (simp add: RUDPSend_def NewMessage_def QueuePush_def set_front_def RUDPNew_def
      DefaultPackageSize_def Let_def new_addr_def wrap_def)

text \<open>
  Claim C4 on a session with two messages of one byte queued by RUDPSend. SendMessage
  moves the message at the Front (ID 2, the one sent last) to the history and stops;
  the message with ID 1 stays in the send queue, and the outgoing buffer is as before:
  no Data record is written for the message moved.
\<close>

theorem SendMessage_moves_front_only:
  "SendMessage (fst (RUDPSend (fst (RUDPSend ((RUDPNew 0 0)\<lparr>FreeList := Some []\<rparr>) [1] 1)) [2] 1))
     TmpBuffer_zero =
     Some ((fst (RUDPSend (fst (RUDPSend ((RUDPNew 0 0)\<lparr>FreeList := Some []\<rparr>) [1] 1)) [2] 1))\<lparr>
             SendHistory :=
               [ElemVal \<lparr>Addr = 2, Size = 1, Cap = 512, ID = 2, Tick = 0, Buf = []\<rparr>],
             SendQueue :=
               [MsgVal \<lparr>Addr = 1, Size = 1, Cap = 512, ID = 1, Tick = 0, Buf = []\<rparr>]\<rparr>,
           TmpBuffer_zero)"
  by (simp add: RUDPSend_twice SendMessage_def PackMessage_def DefaultPackageSize_def)
     (simp add: RUDPNew_def)

subsection \<open>The two-byte tag\<close>

text \<open>
  Claim C8 for the tag 128 (a payload of 124 bytes) and ID 1. The first byte written
  is \<^verbatim>\<open>0x89\<close>, where the claim has \<^verbatim>\<open>0x80\<close>; the second byte and the ID bytes
  are as claimed. ExtractHeader reads the two bytes back as the tag 2432.
\<close>

theorem FillHeader_long_tag:
  "FillHeader [0, 0, 0, 0] 128 1 = Some ([0x89, 0x80, 0x00, 0x01], 4, 4) \<and>
   ExtractHeader [0x89, 0x80, 0x00, 0x01] 4 = Some (Hdr 2432 [0x00, 0x01] 2)"
  by (simp add: FillHeader_def ExtractHeader_def store_at_def to_byte_def index_at_def
      slice_from_def Let_def)

subsection \<open>The Ignore record and the request index\<close>

lemma ReplyRequest_empty_count:
  "IdxN (SendAgain u) = 0 \<Longrightarrow> ReplyRequest u tmp = Some (u, tmp)"
  by (simp add: ReplyRequest_def ReplyRequest_loop.simps)

text \<open>
  Claim C9 on a new session that decodes the one-byte packet \<^verbatim>\<open>00\<close>. RecvIdMin is
  appended to \<^verbatim>\<open>SendAgain.A\<close> and nothing else changes; the count \<^verbatim>\<open>SendAgain.N\<close>
  stays 0. ReplyRequest loops over \<^verbatim>\<open>i < SendAgain.N\<close>, so on this session it writes
  no record. With the count at 1 it would write a three-byte Missing record.
\<close>

theorem Ignore_appends_without_count:
  "ExtractPackage (RUDPNew 0 0) [0x00] 1 = (append_again (RUDPNew 0 0) 0, Some ()) \<and>
   SendAgain (append_again (RUDPNew 0 0) 0) = \<lparr>IdxCap = 0, IdxN = 0, IdxA = [0]\<rparr> \<and>
   ReplyRequest (append_again (RUDPNew 0 0) 0) TmpBuffer_zero =
     Some (append_again (RUDPNew 0 0) 0, TmpBuffer_zero) \<and>
   map_option (TmpSize \<circ> snd)
     (ReplyRequest ((RUDPNew 0 0)\<lparr>SendAgain := \<lparr>IdxCap = 0, IdxN = 1, IdxA = [0]\<rparr>\<rparr>)
        TmpBuffer_zero) = Some 3"
proof (intro conjI)
  show "ExtractPackage (RUDPNew 0 0) [0x00] 1 = (append_again (RUDPNew 0 0) 0, Some ())"
    by (simp add: ExtractPackage.simps ExtractHeader_def index_at_def slice_from_def
        TypeIgnore_def RUDPNew_def)
  show "SendAgain (append_again (RUDPNew 0 0) 0) = \<lparr>IdxCap = 0, IdxN = 0, IdxA = [0]\<rparr>"
    by (simp add: append_again_def RUDPNew_def)
  show "ReplyRequest (append_again (RUDPNew 0 0) 0) TmpBuffer_zero =
     Some (append_again (RUDPNew 0 0) 0, TmpBuffer_zero)"
    by (rule ReplyRequest_empty_count) (simp add: append_again_def RUDPNew_def)
  show "map_option (TmpSize \<circ> snd)
     (ReplyRequest ((RUDPNew 0 0)\<lparr>SendAgain := \<lparr>IdxCap = 0, IdxN = 1, IdxA = [0]\<rparr>\<rparr>)
        TmpBuffer_zero) = Some 3"
    by (simp add: ReplyRequest_def ReplyRequest_loop.simps [of _ _ 0]
        ReplyRequest_loop.simps [of _ _ 1] RUDPNew_def index_at_def PackRequest_def
        FillHeader_def store_at_def TmpBuffer_zero_def DefaultPackageSize_def TypeMissing_def
        Let_def wrap_def)
qed

subsection \<open>RecvIdMin across the public operations\<close>

text \<open>
  A property of the session that setting the corrupt flag, appending to the request
  index and InsertMessage preserve is preserved by ExtractPackage, whether it returns
  or panics.
\<close>

lemma ExtractPackage_preserves:
  assumes flag: "\<And>v. P v \<Longrightarrow> P (v\<lparr>Corrupt := 1\<rparr>)"
    and again: "\<And>v i. P v \<Longrightarrow> P (append_again v i)"
    and insert: "\<And>v i b s. P v \<Longrightarrow> P (fst (InsertMessage v i b s))"
  shows "P u \<Longrightarrow> P (fst (ExtractPackage u buf sz))"
proof (induction u buf sz rule: ExtractPackage.induct)
  case (1 u buf sz)
  note run = ExtractPackage.simps [of u buf sz]
  note P = "1.prems"
  show ?case
  proof (cases "sz > 0")
    case False
    with P show ?thesis by (simp add: run)
  next
    case pos: True
    show ?thesis
    proof (cases "ExtractHeader buf sz")
      case None
      with pos P show ?thesis by (simp add: run)
    next
      case (Some h)
      show ?thesis
      proof (cases h)
        case HdrCorrupt
        with pos Some flag [OF P] show ?thesis by (simp add: run)
      next
        case (Hdr len buf1 sz1)
        consider (ign) "len = TypeIgnore"
          | (cor) "len \<noteq> TypeIgnore" "len = TypeCorrupt"
          | (req) "len \<noteq> TypeIgnore" "len \<noteq> TypeCorrupt" "len = TypeRequest \<or> len = TypeMissing"
          | (dat) "len \<noteq> TypeIgnore" "len \<noteq> TypeCorrupt" "\<not> (len = TypeRequest \<or> len = TypeMissing)"
          by blast
        then show ?thesis
        proof cases
          case ign
          have "P (if IdxN (SendAgain u) = 0 then append_again u (RecvIdMin u) else u)"
            using P again [OF P] by simp
          from "1.IH"(1) [OF pos Some Hdr ign this] pos Some Hdr ign show ?thesis
            by (simp add: run)
        next
          case cor
          with pos Some Hdr flag [OF P] show ?thesis by (simp add: run)
        next
          case req
          show ?thesis
          proof (cases "sz1 < 2")
            case True
            with req pos Some Hdr flag [OF P] show ?thesis by (simp add: run)
          next
            case big: False
            show ?thesis
            proof (cases "GetID u buf1")
              case None
              with big req pos Some Hdr P show ?thesis by (simp add: run)
            next
              case g: (Some idn)
              obtain v r where step:
                "(v, r) = (if len = TypeRequest then (append_again u idn, Some ())
                           else AddMissing u idn)"
                by (metis surj_pair)
              have Pv: "P v"
                using step again [OF P, of idn] insert [OF P, of idn "[]" "- 1"]
                by (auto simp: AddMissing_def split: if_splits dest: arg_cong [where f = fst])
              show ?thesis
              proof (cases r)
                case None
                with step [symmetric] Pv big req pos Some Hdr g show ?thesis
                  by (simp add: run)
              next
                case d: (Some ok)
                show ?thesis
                proof (cases "slice_from buf1 2")
                  case None
                  with step [symmetric] d Pv big req pos Some Hdr g show ?thesis
                    by (simp add: run)
                next
                  case s: (Some buf2)
                  from "1.IH"(2) [OF pos Some Hdr req(1) req(2) req(3) big g step d s Pv]
                    step [symmetric] d s big req pos Some Hdr g
                  show ?thesis by (simp add: run)
                qed
              qed
            qed
          qed
        next
          case dat
          show ?thesis
          proof (cases "sz1 < len - TypeNormal + 2")
            case True
            with dat pos Some Hdr flag [OF P] show ?thesis by (simp add: run)
          next
            case big: False
            show ?thesis
            proof (cases "GetID u buf1")
              case None
              with big dat pos Some Hdr P show ?thesis by (simp add: run)
            next
              case g: (Some idn)
              show ?thesis
              proof (cases "slice_from buf1 2")
                case None
                with g big dat pos Some Hdr P show ?thesis by (simp add: run)
              next
                case p: (Some payload)
                obtain v r where step: "(v, r) = InsertMessage u idn payload (len - TypeNormal)"
                  by (metis surj_pair)
                have Pv: "P v"
                  using step insert [OF P, of idn payload "len - TypeNormal"]
                  by (auto dest: arg_cong [where f = fst])
                show ?thesis
                proof (cases r)
                  case None
                  with step [symmetric] Pv p g big dat pos Some Hdr show ?thesis
                    by (simp add: run)
                next
                  case d: (Some ok)
                  show ?thesis
                  proof (cases "slice_from buf1 (len - TypeNormal + 2)")
                    case None
                    with step [symmetric] d Pv p g big dat pos Some Hdr show ?thesis
                      by (simp add: run)
                  next
                    case s: (Some buf2)
                    from "1.IH"(3) [OF pos Some Hdr dat(1) dat(2) dat(3) big g p step d s Pv]
                      step [symmetric] d s p g big dat pos Some Hdr
                    show ?thesis by (simp add: run)
                  qed
                qed
              qed
            qed
          qed
        qed
      qed
    qed
  qed
qed

text \<open>None of the functions reached from RUDPUpdate assigns RecvIdMin.\<close>

lemma RecvIdMin_InsertMessage: "RecvIdMin (fst (InsertMessage u idn buf sz)) = RecvIdMin u"
  by (simp add: InsertMessage_def NewMessage_def Let_def split: option.splits)

lemma RecvIdMin_ExtractPackage: "RecvIdMin (fst (ExtractPackage u buf sz)) = RecvIdMin u"
  by (rule ExtractPackage_preserves [where P = "\<lambda>v. RecvIdMin v = RecvIdMin u"])
     (simp_all add: RecvIdMin_InsertMessage append_again_def)

lemma RecvIdMin_SendMessage:
  "SendMessage u tmp = Some (u', tmp') \<Longrightarrow> RecvIdMin u' = RecvIdMin u"
  by (cases "SendQueue u") (auto simp: SendMessage_def split: bind_splits)

lemma RecvIdMin_GenOutPackage: "RecvIdMin (fst (GenOutPackage u)) = RecvIdMin u"
  by (auto simp: GenOutPackage_def ReplyRequest_def Let_def
      dest!: RecvIdMin_SendMessage split: bind_splits if_splits option.splits)

lemma RecvIdMin_ClearOutPacakge: "RecvIdMin (fst (ClearOutPacakge u)) = RecvIdMin u"
  by (simp add: ClearOutPacakge_def split: option.splits)

lemma RecvIdMin_send_due:
  "RecvIdMin
     (fst (case GenOutPackage v of
             (u5, None) \<Rightarrow> (u5, None)
           | (u5, Some pk) \<Rightarrow>
               (u5\<lparr>SendPackage := pk, LastSendTick := CurrentTick u5\<rparr>, Some pk))) =
   RecvIdMin v"
  using RecvIdMin_GenOutPackage [of v]
  by (cases "GenOutPackage v") (simp split: option.splits)

lemma RecvIdMin_RUDPUpdate: "RecvIdMin (fst (RUDPUpdate u buf sz tick)) = RecvIdMin u"
proof -
  obtain u2 r2 where c: "ClearOutPacakge (u\<lparr>CurrentTick := wrap (CurrentTick u + tick)\<rparr>) = (u2, r2)"
    by (metis surj_pair)
  from RecvIdMin_ClearOutPacakge [of "u\<lparr>CurrentTick := wrap (CurrentTick u + tick)\<rparr>"] c
  have m2: "RecvIdMin u2 = RecvIdMin u" by simp
  obtain u3 r3 where e: "ExtractPackage u2 buf sz = (u3, r3)"
    by (metis surj_pair)
  from RecvIdMin_ExtractPackage [of u2 buf sz] e m2
  have m3: "RecvIdMin u3 = RecvIdMin u" by simp
  show ?thesis
    using c e m2 m3
    by (simp add: RUDPUpdate_def Let_def RecvIdMin_send_due ClearSendExpired_def
        split: option.splits)
qed

lemma QueuePop_Some_iff:
  "fst (QueuePop q idn) \<noteq> None \<longleftrightarrow> (\<exists>e\<in>set q. holds_id e idn)"
  by (induction q) (auto simp: holds_id_def split: option.splits prod.splits)

lemma RecvIdMin_RUDPRecv:
  "RecvIdMin (fst (RUDPRecv u)) =
     (if Corrupt u = 0 \<and> (\<exists>e\<in>set (RecvQueue u). holds_id e (RecvIdMin u))
      then wrap (RecvIdMin u + 1) else RecvIdMin u)"
  using QueuePop_Some_iff [of "RecvQueue u" "RecvIdMin u"]
  by (auto simp: RUDPRecv_def RemoveMessage_def split: prod.splits option.splits)

text \<open>
  Claim C10, as the code has it. RUDPSend, RUDPDelete and RUDPUpdate leave RecvIdMin
  as it is, whether they return or panic. RUDPRecv increments it, with the wrap-around
  of a 64-bit integer, when the corrupt flag is clear and the receive queue holds a
  message with \<open>ID = RecvIdMin\<close> (the receive that takes a message, also when it
  panics afterwards in RemoveMessage), and leaves it as it is otherwise. So as long as
  RecvIdMin is not the largest 64-bit integer, it never decreases, and the only change
  is an increase by exactly one.
\<close>

theorem RecvIdMin_public_ops:
  "RecvIdMin (fst (RUDPSend u buf sz)) = RecvIdMin u \<and>
   RecvIdMin (fst (RUDPDelete u)) = RecvIdMin u \<and>
   RecvIdMin (fst (RUDPUpdate u buf sz tick)) = RecvIdMin u \<and>
   RecvIdMin (fst (RUDPRecv u)) =
     (if Corrupt u = 0 \<and> (\<exists>e\<in>set (RecvQueue u). holds_id e (RecvIdMin u))
      then wrap (RecvIdMin u + 1) else RecvIdMin u) \<and>
   (- (2 ^ 63) \<le> RecvIdMin u \<and> RecvIdMin u < 2 ^ 63 - 1 \<longrightarrow>
      RecvIdMin (fst (RUDPRecv u)) =
        (if Corrupt u = 0 \<and> (\<exists>e\<in>set (RecvQueue u). holds_id e (RecvIdMin u))
         then RecvIdMin u + 1 else RecvIdMin u))"
proof (intro conjI impI)
  show "RecvIdMin (fst (RUDPSend u buf sz)) = RecvIdMin u"
    by (simp add: RUDPSend_def NewMessage_def Let_def split: option.splits)
  show "RecvIdMin (fst (RUDPDelete u)) = RecvIdMin u"
    by (simp add: RUDPDelete_def ClearOutPacakge_def Let_def split: option.splits)
  show "RecvIdMin (fst (RUDPUpdate u buf sz tick)) = RecvIdMin u"
    by (rule RecvIdMin_RUDPUpdate)
  show "RecvIdMin (fst (RUDPRecv u)) =
     (if Corrupt u = 0 \<and> (\<exists>e\<in>set (RecvQueue u). holds_id e (RecvIdMin u))
      then wrap (RecvIdMin u + 1) else RecvIdMin u)"
    by (rule RecvIdMin_RUDPRecv)
  assume "- (2 ^ 63) \<le> RecvIdMin u \<and> RecvIdMin u < 2 ^ 63 - 1"
  then have "wrap (RecvIdMin u + 1) = RecvIdMin u + 1"
    by (intro wrap_id) simp_all
  then show "RecvIdMin (fst (RUDPRecv u)) =
        (if Corrupt u = 0 \<and> (\<exists>e\<in>set (RecvQueue u). holds_id e (RecvIdMin u))
         then RecvIdMin u + 1 else RecvIdMin u)"
    by (simp add: RecvIdMin_RUDPRecv)
qed

theorem RecvIdMin_public_ops_witness:
  "RecvIdMin (fst (AddMissing ((RUDPNew 5 5)\<lparr>FreeList := Some []\<rparr>) 0)) = 0 \<and>
   Corrupt (fst (AddMissing ((RUDPNew 5 5)\<lparr>FreeList := Some []\<rparr>) 0)) = 0 \<and>
   RecvQueue (fst (AddMissing ((RUDPNew 5 5)\<lparr>FreeList := Some []\<rparr>) 0)) =
     [MsgVal \<lparr>Addr = 1, Size = - 1, Cap = 512, ID = 0, Tick = 0, Buf = []\<rparr>] \<and>
   holds_id (MsgVal \<lparr>Addr = 1, Size = - 1, Cap = 512, ID = 0, Tick = 0, Buf = []\<rparr>) 0 \<and>
   snd (RUDPSend (fst (AddMissing ((RUDPNew 5 5)\<lparr>FreeList := Some []\<rparr>) 0)) [0x00] 1) =
     Some () \<and>
   RecvIdMin (fst (RUDPSend (fst (AddMissing ((RUDPNew 5 5)\<lparr>FreeList := Some []\<rparr>) 0))
                     [0x00] 1)) = 0 \<and>
   snd (RUDPDelete (fst (AddMissing ((RUDPNew 5 5)\<lparr>FreeList := Some []\<rparr>) 0))) = Some () \<and>
   RecvIdMin (fst (RUDPDelete (fst (AddMissing ((RUDPNew 5 5)\<lparr>FreeList := Some []\<rparr>) 0)))) = 0 \<and>
   snd (RUDPUpdate (fst (AddMissing ((RUDPNew 5 5)\<lparr>FreeList := Some []\<rparr>) 0)) [0x00] 1 1) =
     Some None \<and>
   RecvIdMin (fst (RUDPUpdate (fst (AddMissing ((RUDPNew 5 5)\<lparr>FreeList := Some []\<rparr>) 0))
                     [0x00] 1 1)) = 0 \<and>
   snd (RUDPRecv (fst (AddMissing ((RUDPNew 5 5)\<lparr>FreeList := Some []\<rparr>) 0))) =
     Some ([], None) \<and>
   RecvIdMin (fst (RUDPRecv (fst (AddMissing ((RUDPNew 5 5)\<lparr>FreeList := Some []\<rparr>) 0)))) = 1"
proof -
  let ?u = "fst (AddMissing ((RUDPNew 5 5)\<lparr>FreeList := Some []\<rparr>) 0)"
  have a: "RecvIdMin ?u = 0" "Corrupt ?u = 0"
    "RecvQueue ?u = [MsgVal \<lparr>Addr = 1, Size = - 1, Cap = 512, ID = 0, Tick = 0, Buf = []\<rparr>]"
    by (simp_all add: AddMissing_fresh) (simp_all add: RUDPNew_def)
  have s: "snd (RUDPSend ?u [0x00] 1) = Some ()"
    by (simp add: AddMissing_fresh RUDPSend_def NewMessage_def Let_def; simp add: RUDPNew_def)
  have d: "snd (RUDPDelete ?u) = Some ()"
    by (simp add: AddMissing_fresh RUDPDelete_def ClearOutPacakge_def Let_def;
        simp add: RUDPNew_def)
  have e: "ExtractPackage v [0x00] 1 =
             (if IdxN (SendAgain v) = 0 then append_again v (RecvIdMin v) else v, Some ())" for v
    by (simp add: ExtractPackage.simps ExtractHeader_def index_at_def slice_from_def
        TypeIgnore_def)
  have p: "snd (RUDPUpdate ?u [0x00] 1 1) = Some None"
    by (simp add: AddMissing_fresh RUDPUpdate_def ClearOutPacakge_def Let_def e;
        simp add: RUDPNew_def append_again_def ClearMessageQueue_def wrap_def)
  have r: "snd (RUDPRecv ?u) = Some ([], None)"
    by (simp add: AddMissing_fresh RUDPRecv_def RemoveMessage_def; simp add: RUDPNew_def)
  from RecvIdMin_public_ops [where u = ?u and buf = "[0x00]" and sz = 1 and tick = 1] a s d p r
  show ?thesis
    by (simp add: holds_id_def)
qed

text \<open>
  Claim C10 as stated fails at the top of the 64-bit range. With RecvIdMin the
  largest 64-bit integer and a message of that ID in the receive queue, RUDPRecv
  takes the message and \<^verbatim>\<open>u.RecvIdMin++\<close> wraps to the smallest 64-bit integer:
  RecvIdMin has decreased.
\<close>

theorem RecvIdMin_wraps_at_max:
  "RecvIdMin (fst (RUDPRecv ((RUDPNew 0 0)
      \<lparr>RecvQueue := [MsgVal \<lparr>Addr = 1, Size = 0, Cap = 512, ID = 9223372036854775807,
                              Tick = 0, Buf = []\<rparr>],
        FreeList := Some [MsgVal \<lparr>Addr = 1, Size = 0, Cap = 512, ID = 9223372036854775807,
                                   Tick = 0, Buf = []\<rparr>],
        RecvIdMin := 9223372036854775807, RecvIdMax := 9223372036854775807\<rparr>))) =
     - 9223372036854775808 \<and>
   snd (RUDPRecv ((RUDPNew 0 0)
      \<lparr>RecvQueue := [MsgVal \<lparr>Addr = 1, Size = 0, Cap = 512, ID = 9223372036854775807,
                              Tick = 0, Buf = []\<rparr>],
        FreeList := Some [MsgVal \<lparr>Addr = 1, Size = 0, Cap = 512, ID = 9223372036854775807,
                                   Tick = 0, Buf = []\<rparr>],
        RecvIdMin := 9223372036854775807, RecvIdMax := 9223372036854775807\<rparr>)) =
     Some ([], None)"
  by (simp add: RUDPRecv_def RemoveMessage_def RUDPNew_def wrap_def)

subsection \<open>The send cycle\<close>

text \<open>
  \<^verbatim>\<open>tmp.Packages\<close> is nil from \<^verbatim>\<open>TmpBuffer{}\<close> on and no function allocates it: a
  function that returns leaves it nil.
\<close>

lemma NewPacakge_nil: "Packages tmp = None \<Longrightarrow> NewPacakge u tmp = None"
  by (simp add: NewPacakge_def)

lemma PackRequest_nil:
  "Packages tmp = None \<Longrightarrow> PackRequest u tmp idn tag = Some tmp' \<Longrightarrow> Packages tmp' = None"
  by (auto simp: PackRequest_def NewPacakge_nil Let_def split: bind_splits if_splits)

lemma PackMessage_nil:
  "Packages tmp = None \<Longrightarrow> PackMessage u tmp m = Some tmp' \<Longrightarrow> Packages tmp' = None"
  by (auto simp: PackMessage_def NewPacakge_nil Let_def split: bind_splits if_splits)

lemma PackRequest_range_nil:
  "Packages tmp = None \<Longrightarrow> PackRequest_range u tmp i hi = Some tmp' \<Longrightarrow>
   Packages tmp' = None"
proof (induction u tmp i hi rule: PackRequest_range.induct)
  case (1 u tmp i hi)
  show ?case
  proof (cases "i < hi")
    case False
    with "1.prems" show ?thesis by (simp add: PackRequest_range.simps [of u tmp i hi])
  next
    case True
    with "1.prems"(2) obtain t where p: "PackRequest u tmp i TypeRequest = Some t"
      and r: "PackRequest_range u t (i + 1) hi = Some tmp'"
      by (auto simp: PackRequest_range.simps [of u tmp i hi] split: bind_splits)
    from PackRequest_nil [OF "1.prems"(1) p] have "Packages t = None" .
    from "1.IH" [OF True p this r] show ?thesis .
  qed
qed

lemma RequestMissing_loop_nil:
  "Packages tmp = None \<Longrightarrow> RequestMissing_loop u q idn tmp = Some tmp' \<Longrightarrow>
   Packages tmp' = None"
proof (induction q arbitrary: idn tmp)
  case Nil
  then show ?case by simp
next
  case (Cons m rest)
  from Cons.prems(2) obtain ele t where e: "elem_message m = Some ele"
    and p: "(if ID ele > idn then PackRequest_range u tmp idn (ID ele) else Some tmp) = Some t"
    and r: "RequestMissing_loop u rest (wrap (ID ele + 1)) t = Some tmp'"
    by (auto split: bind_splits)
  from p Cons.prems(1) have "Packages t = None"
    by (auto dest: PackRequest_range_nil split: if_splits)
  from Cons.IH [OF this r] show ?case .
qed

lemma ReplyRequest_scan_nil:
  "Packages tmp = None \<Longrightarrow> ReplyRequest_scan u tmp idn m = Some (tmp', m') \<Longrightarrow>
   Packages tmp' = None"
  by (induction m)
     (auto dest: PackRequest_nil PackMessage_nil split: bind_splits if_splits)

lemma ReplyRequest_loop_nil:
  "Packages tmp = None \<Longrightarrow> ReplyRequest_loop u tmp i m = Some tmp' \<Longrightarrow>
   Packages tmp' = None"
proof (induction u tmp i m rule: ReplyRequest_loop.induct)
  case (1 u tmp i m)
  note run = ReplyRequest_loop.simps [of u tmp i m]
  show ?case
  proof (cases "i < IdxN (SendAgain u)")
    case False
    with "1.prems" show ?thesis by (simp add: run)
  next
    case True
    with "1.prems"(2) obtain idn where g: "index_at (IdxA (SendAgain u)) i = Some idn"
      by (auto simp: run split: bind_splits)
    show ?thesis
    proof (cases "idn < RecvIdMin u")
      case low: True
      with True g "1.prems"(2) have "ReplyRequest_loop u tmp (i + 1) m = Some tmp'"
        by (simp add: run)
      from "1.IH"(1) [OF True g low "1.prems"(1) this] show ?thesis .
    next
      case high: False
      with True g "1.prems"(2) obtain t m' where
        s: "ReplyRequest_scan u tmp idn m = Some (t, m')"
        and r: "ReplyRequest_loop u t (i + 1) m' = Some tmp'"
        by (auto simp: run split: bind_splits)
      from ReplyRequest_scan_nil [OF "1.prems"(1) s] have n: "Packages t = None" .
      from "1.IH"(2) [OF True g high s refl n r] show ?thesis .
    qed
  qed
qed

lemma SendMessage_nil:
  "Packages tmp = None \<Longrightarrow> SendMessage u tmp = Some (u', tmp') \<Longrightarrow> Packages tmp' = None"
  by (cases "SendQueue u")
     (auto simp: SendMessage_def dest: PackMessage_nil split: bind_splits)

text \<open>
  So GenOutPackage panics on every call, at \<^verbatim>\<open>tmp.Packages.Front()\<close> at the latest,
  and an RUDPUpdate that returns is one that was not due to send: it returns nil.
\<close>

lemma GenOutPackage_panics: "snd (GenOutPackage u) = None"
proof -
  have z: "Packages (TmpBuffer_zero\<lparr>TmpSize := 0\<rparr>) = None"
    by (simp add: TmpBuffer_zero_def)
  show ?thesis
  proof (cases "RequestMissing u (TmpBuffer_zero\<lparr>TmpSize := 0\<rparr>)")
    case None
    then show ?thesis by (simp add: GenOutPackage_def)
  next
    case s1: (Some tmp1)
    from RequestMissing_loop_nil [OF z s1 [unfolded RequestMissing_def]]
    have n1: "Packages tmp1 = None" .
    show ?thesis
    proof (cases "ReplyRequest u tmp1")
      case None
      with s1 show ?thesis by (simp add: GenOutPackage_def)
    next
      case s2: (Some p2)
      obtain u2 tmp2 where p2: "p2 = (u2, tmp2)" by (cases p2)
      from s2 p2 n1 have n2: "Packages tmp2 = None"
        by (auto simp: ReplyRequest_def dest: ReplyRequest_loop_nil split: bind_splits)
      show ?thesis
      proof (cases "SendMessage u2 tmp2")
        case None
        with s1 s2 p2 show ?thesis by (simp add: GenOutPackage_def)
      next
        case s3: (Some p3)
        obtain u3 tmp3 where p3: "p3 = (u3, tmp3)" by (cases p3)
        from SendMessage_nil [OF n2 s3 [unfolded p3]] have "Packages tmp3 = None" .
        with s1 s2 p2 s3 p3 show ?thesis by (simp add: GenOutPackage_def)
      qed
    qed
  qed
qed

lemma send_due_panics:
  "snd (case GenOutPackage v of
          (u5, None) \<Rightarrow> (u5, None)
        | (u5, Some pk) \<Rightarrow>
            (u5\<lparr>SendPackage := pk, LastSendTick := CurrentTick u5\<rparr>, Some pk)) = None"
  using GenOutPackage_panics [of v]
  by (cases "GenOutPackage v") (simp split: option.splits)

lemma RUDPUpdate_returns_nil:
  "snd (RUDPUpdate u buf sz tick) = None \<or> snd (RUDPUpdate u buf sz tick) = Some None"
proof -
  obtain u2 r2 where c: "ClearOutPacakge (u\<lparr>CurrentTick := wrap (CurrentTick u + tick)\<rparr>) = (u2, r2)"
    by (metis surj_pair)
  obtain u3 r3 where e: "ExtractPackage u2 buf sz = (u3, r3)"
    by (metis surj_pair)
  show ?thesis
    using c e
    by (simp add: RUDPUpdate_def Let_def send_due_panics split: option.splits)
qed

subsection \<open>Decoding a packet record by record\<close>

lemma and_7fff: "0 \<le> x \<Longrightarrow> (x::int) AND 0x7fff = x mod 32768"
proof -
  have "(0x7fff::int) = mask 15" by (simp add: mask_eq_exp_minus_1)
  then have "x AND 0x7fff = take_bit 15 x" by (simp only: take_bit_eq_mask)
  then show ?thesis by (simp add: take_bit_eq_mod)
qed

lemma uint_byte: "uint (b::byte) = int (unat b)"
  by simp

lemma ExtractHeader_truncated:
  assumes "buf \<noteq> []" "read_tag buf = None"
  shows "ExtractHeader buf (int (length buf)) = Some HdrCorrupt"
proof -
  from assms obtain b0 where buf: "buf = [b0]" and big: "\<not> unat b0 \<le> 127"
    by (cases buf; cases "tl buf") (auto simp: read_tag_def split: if_splits)
  from big have "uint b0 > 127" by (simp add: uint_byte del: of_nat_unat)
  with buf show ?thesis
    by (simp add: ExtractHeader_def index_at_def Let_def)
qed

lemma ExtractHeader_tag:
  assumes "read_tag buf = Some (t, h)"
  shows "ExtractHeader buf (int (length buf)) =
           Some (Hdr (int t) (drop h buf) (int (length (drop h buf))))"
proof (cases buf)
  case Nil
  with assms show ?thesis by (simp add: read_tag_def)
next
  case (Cons b0 rest)
  show ?thesis
  proof (cases "unat b0 \<le> 127")
    case True
    with assms Cons have "t = unat b0" "h = 1" by (simp_all add: read_tag_def)
    from True have "\<not> uint b0 > 127" by (simp add: uint_byte del: of_nat_unat)
    moreover have "uint b0 = int t" using \<open>t = unat b0\<close> by simp
    ultimately show ?thesis using Cons \<open>h = 1\<close>
      by (simp add: ExtractHeader_def index_at_def slice_from_def Let_def)
  next
    case False
    with assms Cons obtain b1 rest' where r: "rest = b1 # rest'"
      by (auto simp: read_tag_def split: list.splits)
    with assms Cons False have th: "t = (unat b0 * 256 + unat b1) mod 32768" "h = 2"
      by (simp_all add: read_tag_def)
    have "(uint b0 * 256 + uint b1) AND 0x7fff = (uint b0 * 256 + uint b1) mod 32768"
      by (rule and_7fff) simp
    also have "\<dots> = int ((unat b0 * 256 + unat b1) mod 32768)"
      by (simp add: zmod_int uint_byte del: of_nat_unat)
    finally have tag: "(uint b0 * 256 + uint b1) AND 0x7fff = int t" using th by simp
    from False have "uint b0 > 127" by (simp add: uint_byte del: of_nat_unat)
    with Cons r th tag show ?thesis
      by (simp add: ExtractHeader_def index_at_def slice_from_def Let_def)
  qed
qed

lemma read_tag_bounds:
  "read_tag buf = Some (t, h) \<Longrightarrow> 1 \<le> h \<and> h \<le> length buf"
  by (auto simp: read_tag_def split: list.splits if_splits)

lemma GetID_prefix:
  "2 \<le> length b \<Longrightarrow> GetID u b = GetID u [b ! 0, b ! 1]"
  by (cases b; cases "tl b") (auto simp: GetID_def index_at_def)

lemma GetID_total: "2 \<le> length b \<Longrightarrow> \<exists>idn. GetID u b = Some idn"
  by (cases b; cases "tl b") (auto simp: GetID_def index_at_def Let_def)

lemma NewMessage_payload: "NewMessage u buf sz = NewMessage u buf' sz"
  by (simp add: NewMessage_def copy_bytes_def)

lemma InsertMessage_payload:
  "InsertMessage u idn buf sz = InsertMessage u idn buf' sz"
  unfolding InsertMessage_def NewMessage_payload [of u buf sz buf'] ..

text \<open>One turn of the loop on a buffer whose tag is complete, with the length of the
  buffer as size.\<close>

lemma ExtractPackage_tag:
  assumes "read_tag buf = Some (t, h)"
    and "buf1 = drop h buf" and "sz1 = int (length buf1)" and "len = int t"
  shows "ExtractPackage u buf (int (length buf)) =
    (if len = TypeIgnore then
       ExtractPackage
         (if IdxN (SendAgain u) = 0 then append_again u (RecvIdMin u) else u) buf1 sz1
     else if len = TypeCorrupt then (u\<lparr>Corrupt := 1\<rparr>, Some ())
     else if len = TypeRequest \<or> len = TypeMissing then
       (if sz1 < 2 then (u\<lparr>Corrupt := 1\<rparr>, Some ())
        else
          (case GetID u buf1 of
             None \<Rightarrow> (u, None)
           | Some idn \<Rightarrow>
               (case (if len = TypeRequest then (append_again u idn, Some ())
                      else AddMissing u idn) of
                  (u', None) \<Rightarrow> (u', None)
                | (u', Some ok) \<Rightarrow>
                    (case slice_from buf1 2 of
                       None \<Rightarrow> (u', None)
                     | Some buf2 \<Rightarrow> ExtractPackage u' buf2 (sz1 - 2)))))
     else
       (if sz1 < len - TypeNormal + 2 then (u\<lparr>Corrupt := 1\<rparr>, Some ())
        else
          (case GetID u buf1 of
             None \<Rightarrow> (u, None)
           | Some idn \<Rightarrow>
               (case slice_from buf1 2 of
                  None \<Rightarrow> (u, None)
                | Some payload \<Rightarrow>
                    (case InsertMessage u idn payload (len - TypeNormal) of
                       (u', None) \<Rightarrow> (u', None)
                     | (u', Some ok) \<Rightarrow>
                         (case slice_from buf1 (len - TypeNormal + 2) of
                            None \<Rightarrow> (u', None)
                          | Some buf2 \<Rightarrow>
                              ExtractPackage u' buf2 (sz1 - (len - TypeNormal) - 2)))))))"
proof -
  from read_tag_bounds [OF assms(1)] have "0 < length buf" by linarith
  then have pos: "0 < int (length buf)" by simp
  show ?thesis
    unfolding assms(2,3,4)
    by (subst ExtractPackage.simps)
       (simp only: pos if_True ExtractHeader_tag [OF assms(1)] option.case header.case)
qed

lemma step_truncated_tag:
  assumes "buf \<noteq> []" "read_tag buf = None"
  shows "ExtractPackage u buf (int (length buf)) = (u\<lparr>Corrupt := 1\<rparr>, Some ())"
proof -
  from assms have pos: "0 < int (length buf)" by simp
  show ?thesis
    by (subst ExtractPackage.simps)
       (simp only: pos if_True ExtractHeader_truncated [OF assms] option.case header.case)
qed

lemma tag_kinds:
  "int 0 = TypeIgnore" "int (Suc 0) = TypeCorrupt" "int 2 = TypeRequest" "int 3 = TypeMissing"
  "TypeCorrupt \<noteq> TypeIgnore" "TypeRequest \<noteq> TypeIgnore" "TypeRequest \<noteq> TypeCorrupt"
  "TypeMissing \<noteq> TypeIgnore" "TypeMissing \<noteq> TypeCorrupt" "TypeMissing \<noteq> TypeRequest"
  by (simp_all add: TypeIgnore_def TypeCorrupt_def TypeRequest_def TypeMissing_def)

lemma data_tag:
  "4 \<le> t \<Longrightarrow> int t \<noteq> TypeIgnore \<and> int t \<noteq> TypeCorrupt \<and> int t \<noteq> TypeRequest \<and>
     int t \<noteq> TypeMissing \<and> int t - TypeNormal = int (t - 4)"
  by (simp add: TypeIgnore_def TypeCorrupt_def TypeRequest_def TypeMissing_def TypeNormal_def)

lemma step_ignore:
  assumes "read_tag buf = Some (0, h)"
  shows "ExtractPackage u buf (int (length buf)) =
           ExtractPackage (apply_record u RecIgnore) (drop h buf) (int (length (drop h buf)))"
  unfolding ExtractPackage_tag [OF assms refl refl refl]
  by (simp only: tag_kinds if_True apply_record.simps simp_thms)

lemma step_corrupt:
  assumes "read_tag buf = Some (Suc 0, h)"
  shows "ExtractPackage u buf (int (length buf)) = (u\<lparr>Corrupt := 1\<rparr>, Some ())"
  unfolding ExtractPackage_tag [OF assms refl refl refl]
  by (simp only: tag_kinds if_True if_False simp_thms)

lemma drop_ids:
  assumes "h + 2 \<le> length buf"
  shows "GetID u (drop h buf) = GetID u [buf ! h, buf ! (h + 1)]"
    and "slice_from (drop h buf) 2 = Some (drop (h + 2) buf)"
    and "\<not> int (length (drop h buf)) < 2"
    and "int (length (drop h buf)) - 2 = int (length (drop (h + 2) buf))"
proof -
  from assms have "2 \<le> length (drop h buf)" by simp
  from GetID_prefix [OF this] assms show "GetID u (drop h buf) = GetID u [buf ! h, buf ! (h + 1)]"
    by simp
  from assms show "slice_from (drop h buf) 2 = Some (drop (h + 2) buf)"
    by (simp add: slice_from_def add.commute)
  from assms show "\<not> int (length (drop h buf)) < 2" by simp
  from assms show "int (length (drop h buf)) - 2 = int (length (drop (h + 2) buf))" by simp
qed

lemma step_id_short:
  assumes "read_tag buf = Some (t, h)" "t = 2 \<or> t = 3" "length buf < h + 2"
  shows "ExtractPackage u buf (int (length buf)) = (u\<lparr>Corrupt := 1\<rparr>, Some ())"
proof -
  from assms(3) have short: "int (length (drop h buf)) < 2" by simp
  from assms(2) have k: "int t \<noteq> TypeIgnore" "int t \<noteq> TypeCorrupt"
    "int t = TypeRequest \<or> int t = TypeMissing"
    by (auto simp: TypeIgnore_def TypeCorrupt_def TypeRequest_def TypeMissing_def)
  show ?thesis
    unfolding ExtractPackage_tag [OF assms(1) refl refl refl]
    by (simp only: k short if_True if_False)
qed

lemma step_request:
  assumes "read_tag buf = Some (2, h)" "h + 2 \<le> length buf"
  shows "ExtractPackage u buf (int (length buf)) =
           ExtractPackage (apply_record u (RecRequest (buf ! h) (buf ! (h + 1))))
             (drop (h + 2) buf) (int (length (drop (h + 2) buf)))"
proof -
  obtain idn where g: "GetID u [buf ! h, buf ! (h + 1)] = Some idn"
    using GetID_total [of "[buf ! h, buf ! (h + 1)]" u] by auto
  show ?thesis
    unfolding ExtractPackage_tag [OF assms(1) refl refl refl]
    by (simp only: tag_kinds drop_ids [OF assms(2)] g if_True if_False option.case
        prod.case apply_record.simps simp_thms)
qed

lemma step_missing:
  assumes "read_tag buf = Some (3, h)" "h + 2 \<le> length buf"
  shows "ExtractPackage u buf (int (length buf)) =
           (case record_result u (RecMissing (buf ! h) (buf ! (h + 1))) of
              None \<Rightarrow> (apply_record u (RecMissing (buf ! h) (buf ! (h + 1))), None)
            | Some ok \<Rightarrow>
                ExtractPackage (apply_record u (RecMissing (buf ! h) (buf ! (h + 1))))
                  (drop (h + 2) buf) (int (length (drop (h + 2) buf))))"
proof -
  obtain idn where g: "GetID u [buf ! h, buf ! (h + 1)] = Some idn"
    using GetID_total [of "[buf ! h, buf ! (h + 1)]" u] by auto
  obtain u' r where a: "AddMissing u idn = (u', r)"
    by (metis surj_pair)
  show ?thesis
    unfolding ExtractPackage_tag [OF assms(1) refl refl refl]
    by (cases r)
       (simp_all only: tag_kinds drop_ids [OF assms(2)] g a if_True if_False option.case
        prod.case apply_record.simps record_result.simps fst_conv snd_conv simp_thms)
qed

lemma step_data_short:
  assumes "read_tag buf = Some (t, h)" "4 \<le> t" "length buf < h + (2 + (t - 4))"
  shows "ExtractPackage u buf (int (length buf)) = (u\<lparr>Corrupt := 1\<rparr>, Some ())"
proof -
  from assms(2,3) have short: "int (length (drop h buf)) < int (t - 4) + 2" by auto
  from data_tag [OF assms(2)] show ?thesis
    unfolding ExtractPackage_tag [OF assms(1) refl refl refl]
    by (simp only: short if_True if_False simp_thms)
qed

lemma step_data:
  assumes "read_tag buf = Some (t, h)" "4 \<le> t" "h + (2 + (t - 4)) \<le> length buf"
  defines "r \<equiv> RecData (buf ! h) (buf ! (h + 1)) (take (t - 4) (drop (h + 2) buf))"
  shows "ExtractPackage u buf (int (length buf)) =
           (case record_result u r of
              None \<Rightarrow> (apply_record u r, None)
            | Some ok \<Rightarrow>
                ExtractPackage (apply_record u r)
                  (drop (h + (2 + (t - 4))) buf) (int (length (drop (h + (2 + (t - 4))) buf))))"
proof -
  from assms(3) have h2: "h + 2 \<le> length buf" by simp
  from assms(3) have long: "\<not> int (length (drop h buf)) < int (t - 4) + 2" by auto
  from assms(3) have rest:
    "int (length (drop h buf)) - int (t - 4) - 2 = int (length (drop (h + (2 + (t - 4))) buf))"
    by auto
  from assms(3) have sl:
    "slice_from (drop h buf) (int (t - 4) + 2) = Some (drop (h + (2 + (t - 4))) buf)"
    by (simp add: slice_from_def nat_add_distrib add.commute add.left_commute)
  from assms(3) have len: "int (length (take (t - 4) (drop (h + 2) buf))) = int (t - 4)"
    by auto
  obtain idn where g: "GetID u [buf ! h, buf ! (h + 1)] = Some idn"
    using GetID_total [of "[buf ! h, buf ! (h + 1)]" u] by auto
  have ins: "InsertMessage u idn (drop (h + 2) buf) (int (t - 4)) =
             InsertMessage u idn (take (t - 4) (drop (h + 2) buf))
               (int (length (take (t - 4) (drop (h + 2) buf))))"
    unfolding len by (rule InsertMessage_payload)
  obtain u' res where a:
    "InsertMessage u idn (take (t - 4) (drop (h + 2) buf))
       (int (length (take (t - 4) (drop (h + 2) buf)))) = (u', res)"
    by (metis surj_pair)
  from data_tag [OF assms(2)] show ?thesis
    unfolding ExtractPackage_tag [OF assms(1) refl refl refl] r_def
    by (cases res)
       (simp_all only: long rest sl g ins a drop_ids(1,2) [OF h2] if_True if_False option.case
        prod.case apply_record.simps record_result.simps fst_conv snd_conv simp_thms)
qed

text \<open>
  One turn of the loop in terms of the first record: a truncated record and a Corrupt
  record set the flag and end the loop; a complete record is applied and the loop
  goes on behind it, unless applying it panics.
\<close>

lemma ExtractPackage_step:
  assumes "buf \<noteq> []"
  shows "ExtractPackage u buf (int (length buf)) =
           (case next_record buf of
              None \<Rightarrow> (u\<lparr>Corrupt := 1\<rparr>, Some ())
            | Some (r, n) \<Rightarrow>
                if r = RecCorrupt then (u\<lparr>Corrupt := 1\<rparr>, Some ())
                else (case record_result u r of
                        None \<Rightarrow> (apply_record u r, None)
                      | Some ok \<Rightarrow>
                          ExtractPackage (apply_record u r) (drop n buf)
                            (int (length (drop n buf)))))"
proof (cases "read_tag buf")
  case None
  then have "next_record buf = None" by (simp add: next_record_def)
  with step_truncated_tag [OF assms None] show ?thesis by simp
next
  case (Some th)
  obtain t h where th: "th = (t, h)" by (cases th)
  note tag = Some [unfolded th]
  consider (ign) "t = 0" | (cor) "t = 1" | (req) "t = 2" | (mis) "t = 3" | (dat) "4 \<le> t"
    by linarith
  then show ?thesis
  proof cases
    case ign
    with tag read_tag_bounds [OF tag] have "next_record buf = Some (RecIgnore, h)"
      by (simp add: next_record_def record_length_def)
    with step_ignore [OF tag [unfolded ign]] show ?thesis by simp
  next
    case cor
    with tag read_tag_bounds [OF tag] have "next_record buf = Some (RecCorrupt, h)"
      by (simp add: next_record_def record_length_def)
    with step_corrupt [of buf h u] tag cor show ?thesis by simp
  next
    case req
    show ?thesis
    proof (cases "length buf < h + 2")
      case True
      with tag req have "next_record buf = None"
        by (simp add: next_record_def record_length_def)
      with step_id_short [OF tag _ True] req show ?thesis by simp
    next
      case False
      with tag req have
        "next_record buf = Some (RecRequest (buf ! h) (buf ! (h + 1)), h + 2)"
        by (simp add: next_record_def record_length_def)
      moreover obtain idn where "GetID u [buf ! h, buf ! (h + 1)] = Some idn"
        using GetID_total [of "[buf ! h, buf ! (h + 1)]" u] by auto
      ultimately show ?thesis
        using step_request [of buf h u] tag req False by simp
    qed
  next
    case mis
    show ?thesis
    proof (cases "length buf < h + 2")
      case True
      with tag mis have "next_record buf = None"
        by (simp add: next_record_def record_length_def)
      with step_id_short [OF tag _ True] mis show ?thesis by simp
    next
      case False
      with tag mis have
        "next_record buf = Some (RecMissing (buf ! h) (buf ! (h + 1)), h + 2)"
        by (simp add: next_record_def record_length_def)
      with step_missing [of buf h u] tag mis False show ?thesis
        by (simp del: record_result.simps apply_record.simps split: option.splits)
    qed
  next
    case dat
    show ?thesis
    proof (cases "length buf < h + (2 + (t - 4))")
      case True
      with tag dat have "next_record buf = None"
        by (simp add: next_record_def record_length_def)
      with step_data_short [OF tag dat True] show ?thesis by simp
    next
      case False
      with tag dat have
        "next_record buf =
           Some (RecData (buf ! h) (buf ! (h + 1)) (take (t - 4) (drop (h + 2) buf)),
                 h + (2 + (t - 4)))"
        by (simp add: next_record_def record_length_def)
      moreover from False have "h + (2 + (t - 4)) \<le> length buf" by simp
      note step_data [OF tag dat this, of u]
      ultimately show ?thesis
        by (simp del: length_take length_drop record_result.simps apply_record.simps
            split: option.splits)
    qed
  qed
qed

lemma InsertMessage_allocated:
  assumes "FreeList u \<noteq> None"
  shows "snd (InsertMessage u idn buf sz) = Some () \<and>
         FreeList (fst (InsertMessage u idn buf sz)) \<noteq> None"
  using assms
  by (auto simp: InsertMessage_def NewMessage_def set_front_def Let_def split: option.splits)

lemma record_result_allocated:
  assumes "FreeList u \<noteq> None" "next_record buf = Some (r, n)"
  shows "record_result u r = Some () \<and> FreeList (apply_record u r) \<noteq> None"
proof (cases r)
  case RecIgnore
  with assms(1) show ?thesis by (simp add: append_again_def)
next
  case RecCorrupt
  with assms(1) show ?thesis by simp
next
  case (RecRequest hi lo)
  obtain idn where "GetID u [hi, lo] = Some idn"
    using GetID_total [of "[hi, lo]" u] by auto
  with RecRequest assms(1) show ?thesis by (simp add: append_again_def)
next
  case (RecMissing hi lo)
  obtain idn where "GetID u [hi, lo] = Some idn"
    using GetID_total [of "[hi, lo]" u] by auto
  with RecMissing InsertMessage_allocated [OF assms(1), of idn "[]" "- 1"] show ?thesis
    by (simp add: AddMissing_def)
next
  case (RecData hi lo payload)
  obtain idn where "GetID u [hi, lo] = Some idn"
    using GetID_total [of "[hi, lo]" u] by auto
  with RecData InsertMessage_allocated [OF assms(1), of idn payload "int (length payload)"]
  show ?thesis by simp
qed

text \<open>With the length of the buffer as size, a run of ExtractPackage that returns has
  done what \<open>decode\<close> does.\<close>

lemma ExtractPackage_decode_full:
  "snd (ExtractPackage u buf (int (length buf))) = Some () \<Longrightarrow>
   fst (ExtractPackage u buf (int (length buf))) = decode u buf"
proof (induction u buf rule: decode.induct)
  case (1 u buf)
  show ?case
  proof (cases "buf = []")
    case True
    then show ?thesis by (simp add: ExtractPackage.simps decode.simps)
  next
    case False
    show ?thesis
    proof (cases "next_record buf")
      case None
      with False show ?thesis
        by (simp add: ExtractPackage_step [OF False] decode.simps [of u buf])
    next
      case (Some rn)
      obtain r n where rn: "rn = (r, n)" by (cases rn)
      show ?thesis
      proof (cases "r = RecCorrupt")
        case True
        with False Some rn show ?thesis
          by (simp add: ExtractPackage_step [OF False] decode.simps [of u buf])
      next
        case nc: False
        show ?thesis
        proof (cases "record_result u r")
          case None
          with False Some rn nc "1.prems" show ?thesis
            by (simp add: ExtractPackage_step [OF False] del: length_drop)
        next
          case res: (Some ok)
          with False Some rn nc have run:
            "ExtractPackage u buf (int (length buf)) =
               ExtractPackage (apply_record u r) (drop n buf) (int (length (drop n buf)))"
            by (simp add: ExtractPackage_step [OF False] del: length_drop)
          with "1.prems" have
            "snd (ExtractPackage (apply_record u r) (drop n buf) (int (length (drop n buf)))) =
               Some ()"
            by simp
          from "1.IH" [OF False Some [unfolded rn] refl nc this] run False Some rn nc
          show ?thesis
            by (simp add: decode.simps [of u buf] del: length_drop)
        qed
      qed
    qed
  qed
qed

text \<open>On an allocated FreeList every run returns.\<close>

lemma ExtractPackage_returns_full:
  "FreeList u \<noteq> None \<Longrightarrow> snd (ExtractPackage u buf (int (length buf))) = Some ()"
proof (induction u buf rule: decode.induct)
  case (1 u buf)
  show ?case
  proof (cases "buf = []")
    case True
    then show ?thesis by (simp add: ExtractPackage.simps)
  next
    case False
    show ?thesis
    proof (cases "next_record buf")
      case None
      with False show ?thesis
        by (simp add: ExtractPackage_step [OF False])
    next
      case (Some rn)
      obtain r n where rn: "rn = (r, n)" by (cases rn)
      show ?thesis
      proof (cases "r = RecCorrupt")
        case True
        with False Some rn show ?thesis
          by (simp add: ExtractPackage_step [OF False])
      next
        case nc: False
        from record_result_allocated [OF "1.prems" Some [unfolded rn]]
        have res: "record_result u r = Some ()" and fl: "FreeList (apply_record u r) \<noteq> None"
          by simp_all
        from "1.IH" [OF False Some [unfolded rn] refl nc fl] res False Some rn nc
        show ?thesis
          by (simp add: ExtractPackage_step [OF False] del: length_drop)
      qed
    qed
  qed
qed

text \<open>Bytes of the buffer beyond the size are not looked at, except as the payload
  handed to NewMessage, which does not copy it.\<close>

lemma ExtractHeader_take:
  assumes "0 < sz" "sz \<le> int (length buf)"
  shows "ExtractHeader (take (nat sz) buf) sz =
           (case ExtractHeader buf sz of
              None \<Rightarrow> None
            | Some HdrCorrupt \<Rightarrow> Some HdrCorrupt
            | Some (Hdr len buf1 sz1) \<Rightarrow> Some (Hdr len (take (nat sz1) buf1) sz1))"
proof (cases "uint (buf ! 0) > 127")
  case False
  from assms have n: "0 < nat sz" "nat sz \<le> length buf" "buf \<noteq> []" by auto
  then have "drop (Suc 0) (take (nat sz) buf) = take (nat (sz - 1)) (drop (Suc 0) buf)"
    by (simp add: drop_take nat_diff_distrib)
  with False assms n show ?thesis
    by (simp add: ExtractHeader_def index_at_def slice_from_def Let_def)
next
  case True
  show ?thesis
  proof (cases "sz \<le> 1")
    case le: True
    from assms have "buf \<noteq> []" by auto
    with le True assms show ?thesis
      by (simp add: ExtractHeader_def index_at_def slice_from_def Let_def)
  next
    case gt: False
    with assms have n: "2 \<le> nat sz" "nat sz \<le> length buf" "buf \<noteq> []" by auto
    then have "drop 2 (take (nat sz) buf) = take (nat (sz - 2)) (drop 2 buf)"
      by (simp add: drop_take nat_diff_distrib)
    with True gt assms n show ?thesis
      by (simp add: ExtractHeader_def index_at_def slice_from_def Let_def)
  qed
qed

lemma ExtractHeader_within:
  assumes "ExtractHeader buf sz = Some (Hdr len buf1 sz1)" "0 < sz" "sz \<le> int (length buf)"
  shows "0 \<le> sz1 \<and> sz1 \<le> int (length buf1)"
  using assms
  by (auto simp: ExtractHeader_def index_at_def slice_from_def Let_def
      split: bind_splits if_splits)

lemma GetID_take: "2 \<le> n \<Longrightarrow> GetID u (take n b) = GetID u b"
  by (auto simp: GetID_def index_at_def)

lemma slice_from_take:
  assumes "0 \<le> k" "k \<le> s" "s \<le> int (length b)"
  shows "slice_from (take (nat s) b) k = Some (take (nat (s - k)) (drop (nat k) b))"
    and "slice_from b k = Some (drop (nat k) b)"
  using assms by (simp_all add: slice_from_def drop_take nat_diff_distrib)

lemma ExtractPackage_take:
  "0 \<le> sz \<Longrightarrow> sz \<le> int (length buf) \<Longrightarrow>
   ExtractPackage u (take (nat sz) buf) sz = ExtractPackage u buf sz"
proof (induction u buf sz rule: ExtractPackage.induct)
  case (1 u buf sz)
  note lhs = ExtractPackage.simps [of u "take (nat sz) buf" sz]
  note rhs = ExtractPackage.simps [of u buf sz]
  show ?case
  proof (cases "sz > 0")
    case False
    then show ?thesis by (simp add: ExtractPackage.simps [of u _ sz])
  next
    case pos: True
    note hd = ExtractHeader_take [OF pos "1.prems"(2)]
    show ?thesis
    proof (cases "ExtractHeader buf sz")
      case None
      with pos hd show ?thesis by (simp add: lhs rhs)
    next
      case (Some h)
      show ?thesis
      proof (cases h)
        case HdrCorrupt
        with pos hd Some show ?thesis by (simp add: lhs rhs)
      next
        case (Hdr len buf1 sz1)
        from ExtractHeader_within [OF Some [unfolded Hdr] pos "1.prems"(2)]
        have in1: "0 \<le> sz1" "sz1 \<le> int (length buf1)" by simp_all
        from hd Some Hdr have hd': "ExtractHeader (take (nat sz) buf) sz =
            Some (Hdr len (take (nat sz1) buf1) sz1)" by simp
        consider (ign) "len = TypeIgnore"
          | (cor) "len \<noteq> TypeIgnore" "len = TypeCorrupt"
          | (req) "len \<noteq> TypeIgnore" "len \<noteq> TypeCorrupt" "len = TypeRequest \<or> len = TypeMissing"
          | (dat) "len \<noteq> TypeIgnore" "len \<noteq> TypeCorrupt" "\<not> (len = TypeRequest \<or> len = TypeMissing)"
          by blast
        then show ?thesis
        proof cases
          case ign
          from "1.IH"(1) [OF pos Some Hdr ign in1] ign pos Some Hdr hd' show ?thesis
            by (simp add: lhs rhs)
        next
          case cor
          with pos Some Hdr hd' show ?thesis by (simp add: lhs rhs)
        next
          case req
          show ?thesis
          proof (cases "sz1 < 2")
            case True
            with req pos Some Hdr hd' show ?thesis by (simp add: lhs rhs)
          next
            case big: False
            then have two: "2 \<le> nat sz1" by simp
            from big in1 have sl:
              "slice_from (take (nat sz1) buf1) 2 = Some (take (nat (sz1 - 2)) (drop 2 buf1))"
              "slice_from buf1 2 = Some (drop 2 buf1)"
              using slice_from_take [of 2 sz1 buf1] by simp_all
            from big in1 have in2: "0 \<le> sz1 - 2" "sz1 - 2 \<le> int (length (drop 2 buf1))"
              by simp_all
            show ?thesis
            proof (cases "GetID u buf1")
              case None
              with big req pos Some Hdr hd' show ?thesis
                by (simp add: lhs rhs GetID_take [OF two])
            next
              case g: (Some idn)
              obtain v r where step:
                "(v, r) = (if len = TypeRequest then (append_again u idn, Some ())
                           else AddMissing u idn)"
                by (metis surj_pair)
              show ?thesis
              proof (cases r)
                case None
                with step [symmetric] big req pos Some Hdr hd' g show ?thesis
                  by (simp add: lhs rhs GetID_take [OF two])
              next
                case d: (Some ok)
                from "1.IH"(2) [OF pos Some Hdr req(1) req(2) req(3) big g step d sl(2) in2]
                show ?thesis
                  using step [symmetric] d big req pos Some Hdr hd' g sl
                  by (simp add: lhs rhs GetID_take [OF two])
              qed
            qed
          qed
        next
          case dat
          show ?thesis
          proof (cases "sz1 < len - TypeNormal + 2")
            case True
            with dat pos Some Hdr hd' show ?thesis by (simp add: lhs rhs)
          next
            case big: False
            from ExtractHeader_Hdr [OF Some [unfolded Hdr]] dat
            have l4: "0 \<le> len - TypeNormal"
              by (simp add: TypeIgnore_def TypeCorrupt_def TypeRequest_def TypeMissing_def
                  TypeNormal_def)
            with big have two: "2 \<le> nat sz1" by simp
            from big in1 l4 have sl:
              "slice_from (take (nat sz1) buf1) 2 = Some (take (nat (sz1 - 2)) (drop 2 buf1))"
              "slice_from buf1 2 = Some (drop 2 buf1)"
              using slice_from_take [of 2 sz1 buf1] by simp_all
            from big in1 l4 have sk:
              "slice_from (take (nat sz1) buf1) (len - TypeNormal + 2) =
                 Some (take (nat (sz1 - (len - TypeNormal + 2)))
                        (drop (nat (len - TypeNormal + 2)) buf1))"
              "slice_from buf1 (len - TypeNormal + 2) =
                 Some (drop (nat (len - TypeNormal + 2)) buf1)"
              using slice_from_take [of "len - TypeNormal + 2" sz1 buf1] by simp_all
            from big in1 l4 have in2:
              "0 \<le> sz1 - (len - TypeNormal) - 2"
              "sz1 - (len - TypeNormal) - 2 \<le>
                 int (length (drop (nat (len - TypeNormal + 2)) buf1))"
              by simp_all
            have eq: "sz1 - (len - TypeNormal + 2) = sz1 - (len - TypeNormal) - 2" by simp
            show ?thesis
            proof (cases "GetID u buf1")
              case None
              with big dat pos Some Hdr hd' show ?thesis
                by (simp add: lhs rhs GetID_take [OF two])
            next
              case g: (Some idn)
              have pay: "InsertMessage u idn (take (nat (sz1 - 2)) (drop 2 buf1)) (len - TypeNormal)
                  = InsertMessage u idn (drop 2 buf1) (len - TypeNormal)"
                by (rule InsertMessage_payload)
              obtain v r where step:
                "(v, r) = InsertMessage u idn (drop 2 buf1) (len - TypeNormal)"
                by (metis surj_pair)
              show ?thesis
              proof (cases r)
                case None
                have l: "ExtractPackage u (take (nat sz) buf) sz = (v, None)"
                  unfolding lhs
                  using big dat pos hd' g None
                  by (simp only: if_True if_False option.case header.case prod.case sl(1) pay
                      step [symmetric] GetID_take [OF two] simp_thms)
                have r: "ExtractPackage u buf sz = (v, None)"
                  unfolding rhs
                  using big dat pos Some Hdr g None
                  by (simp only: if_True if_False option.case header.case prod.case sl(2)
                      step [symmetric] simp_thms)
                from l r show ?thesis by simp
              next
                case d: (Some ok)
                from "1.IH"(3) [OF pos Some Hdr dat(1) dat(2) dat(3) big g sl(2) step d sk(2) in2]
                have ih: "ExtractPackage v
                    (take (nat (sz1 - (len - TypeNormal) - 2))
                      (drop (nat (len - TypeNormal + 2)) buf1))
                    (sz1 - (len - TypeNormal) - 2) =
                  ExtractPackage v
                    (drop (nat (len - TypeNormal + 2)) buf1)
                    (sz1 - (len - TypeNormal) - 2)" .
                have l: "ExtractPackage u (take (nat sz) buf) sz =
                    ExtractPackage v
                      (take (nat (sz1 - (len - TypeNormal) - 2))
                        (drop (nat (len - TypeNormal + 2)) buf1))
                      (sz1 - (len - TypeNormal) - 2)"
                  unfolding lhs
                  using big dat pos hd' g d
                  by (simp only: if_True if_False option.case header.case prod.case sl(1) sk(1)
                      pay eq step [symmetric] GetID_take [OF two] simp_thms)
                have r: "ExtractPackage u buf sz =
                    ExtractPackage v
                      (drop (nat (len - TypeNormal + 2)) buf1)
                      (sz1 - (len - TypeNormal) - 2)"
                  unfolding rhs
                  using big dat pos Some Hdr g d
                  by (simp only: if_True if_False option.case header.case prod.case sl(2) sk(2)
                      step [symmetric] simp_thms)
                from l r ih show ?thesis by simp
              qed
            qed
          qed
        qed
      qed
    qed
  qed
qed

text \<open>
  On a buffer with a size within it, a run of ExtractPackage that returns has done on
  the first \<open>sz\<close> bytes what \<open>decode\<close> does: it has processed the records from left to
  right, each consuming its declared length, and at the first record that is
  truncated with respect to the bytes that remain it has set the corrupt flag and
  stopped, the session being otherwise as the records before left it.
\<close>

lemma ExtractPackage_decode_returned:
  assumes "0 \<le> sz" "sz \<le> int (length buf)"
    and "snd (ExtractPackage u buf sz) = Some ()"
  shows "fst (ExtractPackage u buf sz) = decode u (take (nat sz) buf)"
proof -
  from assms(1,2) have len: "int (length (take (nat sz) buf)) = sz" by simp
  from assms(3) ExtractPackage_take [OF assms(1,2), of u]
  have "snd (ExtractPackage u (take (nat sz) buf) (int (length (take (nat sz) buf)))) = Some ()"
    by (simp only: len)
  from ExtractPackage_decode_full [OF this]
  have "fst (ExtractPackage u (take (nat sz) buf) sz) = decode u (take (nat sz) buf)"
    by (simp only: len)
  with ExtractPackage_take [OF assms(1,2), of u] show ?thesis by simp
qed

text \<open>On a session with an allocated FreeList every run is such a run.\<close>

lemma ExtractPackage_decode_allocated:
  assumes "0 \<le> sz" "sz \<le> int (length buf)" and "FreeList u \<noteq> None"
  shows "ExtractPackage u buf sz = (decode u (take (nat sz) buf), Some ())"
proof -
  from assms(1,2) have len: "int (length (take (nat sz) buf)) = sz" by simp
  from ExtractPackage_returns_full [OF assms(3), of "take (nat sz) buf"]
  have "snd (ExtractPackage u (take (nat sz) buf) sz) = Some ()"
    by (simp only: len)
  with ExtractPackage_take [OF assms(1,2), of u]
  have ret: "snd (ExtractPackage u buf sz) = Some ()" by simp
  from ExtractPackage_decode_returned [OF assms(1,2) ret] ret show ?thesis
    by (simp add: prod_eq_iff)
qed

text \<open>
  A packet of four bytes in a buffer of six, on the session RUDPNew returns: an Ignore
  record, then a Data record that declares six bytes of payload where none remains
  within the size. No record is inserted; the Ignore record is processed, then the
  flag is set.
\<close>

lemma ExtractPackage_ignore_then_truncated:
  "ExtractPackage (RUDPNew 0 0) [0x00, 0x0A, 0x00, 0x01, 0xFF, 0xFF] 4 =
     ((RUDPNew 0 0)\<lparr>SendAgain := \<lparr>IdxCap = 0, IdxN = 0, IdxA = [0]\<rparr>, Corrupt := 1\<rparr>,
      Some ())"
  by (simp add: ExtractPackage.simps ExtractHeader_def index_at_def slice_from_def
      append_again_def TypeIgnore_def TypeCorrupt_def TypeRequest_def TypeMissing_def
      TypeNormal_def RUDPNew_def)

text \<open>
  On a session with an allocated FreeList the packet \<^verbatim>\<open>04 00 00 0a 00 01\<close>, a
  complete Data record for ID 0 with an empty payload followed by a Data record that
  declares six bytes of payload where none remains, queues the message and then sets
  the corrupt flag.
\<close>

lemma ExtractPackage_data_then_truncated:
  "ExtractPackage ((RUDPNew 0 0)\<lparr>FreeList := Some []\<rparr>)
     [0x04, 0x00, 0x00, 0x0A, 0x00, 0x01] 6 =
     ((RUDPNew 0 0)\<lparr>
        RecvQueue := [MsgVal \<lparr>Addr = 1, Size = 0, Cap = 512, ID = 0, Tick = 0, Buf = []\<rparr>],
        FreeList := Some [MsgVal \<lparr>Addr = 1, Size = 0, Cap = 512, ID = 0, Tick = 0, Buf = []\<rparr>],
        Corrupt := 1\<rparr>, Some ())"
  by (simp add: ExtractPackage.simps ExtractHeader_def GetID_def InsertMessage_def
      NewMessage_def new_addr_def QueuePush_def set_front_def index_at_def slice_from_def
      TypeIgnore_def TypeCorrupt_def TypeRequest_def TypeMissing_def TypeNormal_def
      DefaultPackageSize_def RUDPNew_def wrap_def Let_def)

text \<open>
  Claim C7 on the session RUDPNew returns, with the same packet. The packet holds a
  complete Data record followed by a truncated one, so the claim has the corrupt flag
  set, as \<open>decode\<close> does. RUDPNew leaves FreeList nil, so InsertMessage panics in
  NewMessage on the first record: the decoding does not reach the truncated record,
  and the corrupt flag stays clear.
\<close>

theorem ExtractPackage_panics_before_truncated:
  "ExtractPackage (RUDPNew 0 0) [0x04, 0x00, 0x00, 0x0A, 0x00, 0x01] 6 = (RUDPNew 0 0, None) \<and>
   Corrupt (RUDPNew 0 0) = 0 \<and>
   next_record [0x04, 0x00, 0x00, 0x0A, 0x00, 0x01] = Some (RecData 0x00 0x00 [], 3) \<and>
   next_record [0x0A, 0x00, 0x01] = None \<and>
   Corrupt (decode (RUDPNew 0 0) [0x04, 0x00, 0x00, 0x0A, 0x00, 0x01]) = 1"
proof -
  have r1: "next_record [0x04, 0x00, 0x00, 0x0A, 0x00, 0x01] = Some (RecData 0x00 0x00 [], 3)"
    by (simp add: next_record_def read_tag_def record_length_def)
  have r2: "next_record [0x0A, 0x00, 0x01 :: byte] = None"
    by (simp add: next_record_def read_tag_def record_length_def)
  have run: "ExtractPackage (RUDPNew 0 0) [0x04, 0x00, 0x00, 0x0A, 0x00, 0x01] 6 =
               (RUDPNew 0 0, None)"
    by (simp add: ExtractPackage.simps ExtractHeader_def GetID_def InsertMessage_def
        NewMessage_def index_at_def slice_from_def
        TypeIgnore_def TypeCorrupt_def TypeRequest_def TypeMissing_def TypeNormal_def
        RUDPNew_def wrap_def Let_def)
  have dec: "Corrupt (decode (RUDPNew 0 0) [0x04, 0x00, 0x00, 0x0A, 0x00, 0x01]) = 1"
    by (simp add: decode.simps r1 r2)
  from r1 r2 run dec show ?thesis
    by (simp add: RUDPNew_def)
qed

end
